theory Spec2Isabelle
  imports Complex_Main "HOL-Library.Log_Nat"
begin

section \<open>Benchmark functions of \<open>python/1_basic_cpu_profiling.py\<close>\<close>

text \<open>
  Python integers are unbounded, so they are modelled by \<^typ>\<open>int\<close>.
  Exceptions are values of the type \<open>py_error\<close>; a function that can raise returns
  \<open>py_error + 'a\<close>, with \<open>Inl\<close> for the exception.
\<close>

datatype py_error = IndexError | ValueError | TypeError | ZeroDivisionError
  | OSError | FileNotFoundError | CalledProcessError int | UnicodeDecodeError
  | RecursionError

subsection \<open>Fibonacci\<close>

text \<open>
  \<^verbatim>\<open>
  def fibonacci_recursive(n):
      if n <= 1:
          return n
      return fibonacci_recursive(n-1) + fibonacci_recursive(n-2)
  \<close>
  Every call takes a frame of the interpreter's stack, and a call that would exceed the
  recursion limit (1000 by default; no file of the repository changes it) raises
  \<open>RecursionError\<close>. The first argument of the model is the number of frames that can
  still be entered when the function is called: with none left the call itself raises,
  and each recursive call has one frame less. An exception in the first recursive call
  leaves the function before the second one is made.
\<close>

fun fibonacci_recursive :: "nat \<Rightarrow> int \<Rightarrow> py_error + int" where
  "fibonacci_recursive 0 n = Inl RecursionError"
| "fibonacci_recursive (Suc frames) n =
     (if n \<le> 1 then Inr n
      else case fibonacci_recursive frames (n - 1) of
             Inl e \<Rightarrow> Inl e
           | Inr a \<Rightarrow> (case fibonacci_recursive frames (n - 2) of
                        Inl e \<Rightarrow> Inl e
                      | Inr b \<Rightarrow> Inr (a + b)))"

text \<open>
  \<^verbatim>\<open>
  def fibonacci_iterative(n):
      if n <= 1:
          return n
      a, b = 0, 1
      for _ in range(2, n + 1):
          a, b = b, a + b
      return b
  \<close>
  The loop variable is not used in the body; the loop is a fold over
  \<open>range(2, n + 1)\<close>, which is the list \<open>[2..n]\<close>, with the pair \<open>(a, b)\<close> as state.
\<close>

definition fib_step :: "int \<times> int \<Rightarrow> int \<Rightarrow> int \<times> int" where
  "fib_step ab i = (case ab of (a, b) \<Rightarrow> (b, a + b))"

definition fibonacci_iterative :: "int \<Rightarrow> int" where
  "fibonacci_iterative n =
     (if n \<le> 1 then n else snd (foldl fib_step (0, 1) [2..n]))"

text \<open>The Fibonacci numbers as the specification defines them.\<close>

fun F :: "nat \<Rightarrow> int" where
  "F 0 = 0"
| "F (Suc 0) = 1"
| "F (Suc (Suc n)) = F (Suc n) + F n"

lemma fib_loop_invariant:
  "foldl fib_step (0, 1) [2..int (Suc n)] = (F n, F (Suc n))"
proof (induction n)
  case 0
  show ?case by simp
next
  case (Suc n)
  have "[2..int (Suc (Suc n))] = [2..int (Suc n)] @ [int (Suc (Suc n))]"
    by (simp add: upto_rec2)
  then show ?case
    using Suc.IH by (simp add: fib_step_def)
qed

text \<open>The value of the recursion on an integer: \<open>n\<close> itself below 2.\<close>

definition fib_int :: "int \<Rightarrow> int" where
  "fib_int n = (if n \<le> 1 then n else F (nat n))"

lemma fib_int_nat: "fib_int (int n) = F n"
proof (cases "n \<le> 1")
  case True
  then have "n = 0 \<or> n = Suc 0" by auto
  then show ?thesis by (auto simp: fib_int_def)
next
  case False
  then show ?thesis by (simp add: fib_int_def)
qed

lemma fib_int_rec:
  assumes "\<not> n \<le> 1"
  shows "fib_int (n - 1) + fib_int (n - 2) = fib_int n"
proof -
  define k where "k = nat (n - 2)"
  have n: "n = int (Suc (Suc k))" using assms by (simp add: k_def)
  have "n - 1 = int (Suc k)" "n - 2 = int k" using n by simp_all
  then show ?thesis unfolding n by (simp only: fib_int_nat F.simps)
qed

lemma fibonacci_recursive_returns:
  "0 < frames \<Longrightarrow> n \<le> int frames \<Longrightarrow> fibonacci_recursive frames n = Inr (fib_int n)"
proof (induction frames arbitrary: n)
  case 0
  then show ?case by simp
next
  case (Suc frames)
  show ?case
  proof (cases "n \<le> 1")
    case True
    then show ?thesis by (simp add: fib_int_def)
  next
    case False
    then have pos: "0 < frames" and le: "n - 1 \<le> int frames" "n - 2 \<le> int frames"
      using Suc.prems by simp_all
    have "fibonacci_recursive frames (n - 1) = Inr (fib_int (n - 1))"
      using pos le(1) by (rule Suc.IH)
    moreover have "fibonacci_recursive frames (n - 2) = Inr (fib_int (n - 2))"
      using pos le(2) by (rule Suc.IH)
    ultimately show ?thesis
      using False fib_int_rec [OF False] by simp
  qed
qed

lemma fibonacci_recursive_raises:
  "int frames < n \<Longrightarrow> fibonacci_recursive frames n = Inl RecursionError"
proof (induction frames arbitrary: n)
  case 0
  show ?case by simp
next
  case (Suc frames)
  then have "\<not> n \<le> 1" "int frames < n - 1" by simp_all
  with Suc.IH [of "n - 1"] show ?case by simp
qed

lemma fibonacci_iterative_nat: "fibonacci_iterative (int n) = F n"
proof (cases n)
  case 0
  then show ?thesis by (simp add: fibonacci_iterative_def)
next
  case (Suc m)
  show ?thesis
  proof (cases m)
    case 0
    with Suc show ?thesis by (simp add: fibonacci_iterative_def)
  next
    case (Suc k)
    with \<open>n = Suc m\<close> have "\<not> int n \<le> 1" by simp
    then show ?thesis
      using fib_loop_invariant [of m] \<open>n = Suc m\<close>
      by (simp add: fibonacci_iterative_def)
  qed
qed

text \<open>
  Claim C3. For every natural number \<open>n\<close>, \<open>fibonacci_iterative(n)\<close> is the \<open>n\<close>-th
  Fibonacci number given by \<open>F(0) = 0\<close>, \<open>F(1) = 1\<close>, \<open>F(n) = F(n-1) + F(n-2)\<close>, and
  \<open>fibonacci_iterative(10) = 55\<close>.
\<close>

theorem fibonacci_iterative_correct:
  "fibonacci_iterative (int n) = F n \<and> fibonacci_iterative 10 = 55"
proof -
  have "fibonacci_iterative (int 10) = F 10"
    by (rule fibonacci_iterative_nat)
  moreover have "F 10 = 55"
    by (simp add: numeral_eq_Suc)
  ultimately have "fibonacci_iterative 10 = 55" by simp
  then show ?thesis by (simp add: fibonacci_iterative_nat)
qed

text \<open>
  Claim C9, as amended. For every natural number \<open>n\<close>, \<open>fibonacci_recursive(n)\<close>
  returns the value of \<open>fibonacci_iterative(n)\<close> when its recursion fits in the frames
  that the recursion limit leaves (at least one frame, and at least \<open>n\<close>), and raises
  \<open>RecursionError\<close> otherwise; \<open>fibonacci_iterative(n)\<close> returns for every \<open>n\<close>.
\<close>

theorem fibonacci_recursive_eq_iterative:
  "fibonacci_recursive frames (int n) =
     (if 0 < frames \<and> n \<le> frames then Inr (fibonacci_iterative (int n))
      else Inl RecursionError)"
proof (cases "0 < frames \<and> n \<le> frames")
  case True
  then have "fibonacci_recursive frames (int n) = Inr (fib_int (int n))"
    by (intro fibonacci_recursive_returns) simp_all
  then show ?thesis using True by (simp add: fib_int_nat fibonacci_iterative_nat)
next
  case False
  show ?thesis
  proof (cases frames)
    case 0
    then show ?thesis by simp
  next
    case (Suc k)
    with False have "int frames < int n" by simp
    then have "fibonacci_recursive frames (int n) = Inl RecursionError"
      by (rule fibonacci_recursive_raises)
    with False show ?thesis by simp
  qed
qed

theorem fibonacci_recursive_eq_iterative_witness:
  "fibonacci_recursive 1000 10 = Inr (fibonacci_iterative 10) \<and>
   fibonacci_iterative 10 = 55 \<and>
   fibonacci_recursive 1000 1001 = Inl RecursionError"
proof -
  have "fibonacci_iterative 10 = F 10"
    using fibonacci_iterative_nat [of 10] by simp
  also have "F 10 = 55" by (simp add: numeral_eq_Suc)
  finally have "fibonacci_iterative 10 = 55" .
  then show ?thesis
    using fibonacci_recursive_eq_iterative [of 1000 10]
      fibonacci_recursive_eq_iterative [of 1000 1001]
    by simp
qed

text \<open>
  The claim as it was stated, for every \<open>n\<close>, fails under the default recursion limit:
  with 1000 frames, \<open>fibonacci_recursive(2000)\<close> raises and does not return the value
  that \<open>fibonacci_iterative(2000)\<close> returns.
\<close>

theorem fibonacci_recursive_limit_counterexample:
  "fibonacci_recursive 1000 2000 \<noteq> Inr (fibonacci_iterative 2000)"
proof -
  have "int 1000 < 2000" by simp
  then have "fibonacci_recursive 1000 2000 = Inl RecursionError"
    by (rule fibonacci_recursive_raises)
  then show ?thesis by simp
qed

section \<open>Matrix multiplication of \<open>python/2_matrix_operations.py\<close>\<close>

text \<open>
  A matrix is a list of rows. The entries are Python floats; their arithmetic is read
  exactly, so they are modelled by \<^typ>\<open>real\<close>. Indexing a list out of range raises
  \<open>IndexError\<close>; every index here comes from a \<open>range\<close> and is not negative.
  A \<open>for\<close> loop over a range is \<open>for_py\<close>, which threads the loop's state through the
  body and stops at the first exception; a list comprehension whose element expression
  can raise is \<open>map_py\<close>.
\<close>

definition bind_py :: "py_error + 'a \<Rightarrow> ('a \<Rightarrow> py_error + 'b) \<Rightarrow> py_error + 'b" where
  "bind_py m f = (case m of Inl e \<Rightarrow> Inl e | Inr v \<Rightarrow> f v)"

definition nth_py :: "'a list \<Rightarrow> nat \<Rightarrow> py_error + 'a" where
  "nth_py xs i = (if i < length xs then Inr (xs ! i) else Inl IndexError)"

definition set_py :: "'a list \<Rightarrow> nat \<Rightarrow> 'a \<Rightarrow> py_error + 'a list" where
  "set_py xs i v = (if i < length xs then Inr (xs[i := v]) else Inl IndexError)"

fun for_py :: "nat list \<Rightarrow> ('s \<Rightarrow> nat \<Rightarrow> py_error + 's) \<Rightarrow> 's \<Rightarrow> py_error + 's" where
  "for_py [] body s = Inr s"
| "for_py (x # xs) body s =
     (case body s x of Inl e \<Rightarrow> Inl e | Inr s' \<Rightarrow> for_py xs body s')"

fun map_py :: "nat list \<Rightarrow> (nat \<Rightarrow> py_error + 'a) \<Rightarrow> py_error + 'a list" where
  "map_py [] f = Inr []"
| "map_py (x # xs) f =
     (case f x of Inl e \<Rightarrow> Inl e
      | Inr v \<Rightarrow> (case map_py xs f of Inl e \<Rightarrow> Inl e | Inr vs \<Rightarrow> Inr (v # vs)))"

type_synonym matrix = "real list list"

text \<open>
  \<^verbatim>\<open>
  def naive_matrix_multiply(a, b):
      rows_a, cols_a = len(a), len(a[0])
      rows_b, cols_b = len(b), len(b[0])
      if cols_a != rows_b:
          raise ValueError("Incompatible matrix dimensions")
      result = [[0.0 for _ in range(cols_b)] for _ in range(rows_a)]
      for i in range(rows_a):
          for j in range(cols_b):
              for k in range(cols_a):
                  result[i][j] += a[i][k] * b[k][j]
      return result
  \<close>
  \<open>naive_body\<close> is the statement \<open>result[i][j] += a[i][k] * b[k][j]\<close>: it reads
  \<open>result[i][j]\<close>, evaluates the right-hand side and stores the sum in row \<open>i\<close> of
  \<open>result\<close>. The rows of \<open>result\<close> are distinct lists, so the store changes row \<open>i\<close>
  only. \<open>a[0]\<close> and \<open>b[0]\<close> raise \<open>IndexError\<close> on an empty list.
\<close>

definition naive_body :: "matrix \<Rightarrow> matrix \<Rightarrow> nat \<Rightarrow> nat \<Rightarrow> matrix \<Rightarrow> nat \<Rightarrow> py_error + matrix" where
  "naive_body a b i j result k =
     bind_py (nth_py result i) (\<lambda>ri.
     bind_py (nth_py ri j) (\<lambda>rij.
     bind_py (nth_py a i) (\<lambda>ai.
     bind_py (nth_py ai k) (\<lambda>aik.
     bind_py (nth_py b k) (\<lambda>bk.
     bind_py (nth_py bk j) (\<lambda>bkj.
     bind_py (set_py ri j (rij + aik * bkj)) (\<lambda>ri'.
     set_py result i ri')))))))"

definition naive_matrix_multiply :: "matrix \<Rightarrow> matrix \<Rightarrow> py_error + matrix" where
  "naive_matrix_multiply a b =
     bind_py (nth_py a 0) (\<lambda>a0.
     bind_py (nth_py b 0) (\<lambda>b0.
       let rows_a = length a; cols_a = length a0;
           rows_b = length b; cols_b = length b0
       in if cols_a \<noteq> rows_b then Inl ValueError
          else for_py [0..<rows_a] (\<lambda>result i.
                 for_py [0..<cols_b] (\<lambda>result j.
                   for_py [0..<cols_a] (naive_body a b i j) result) result)
                 (replicate rows_a (replicate cols_b 0))))"

text \<open>
  \<^verbatim>\<open>
  def optimized_matrix_multiply(a, b):
      rows_a, cols_a = len(a), len(a[0])
      rows_b, cols_b = len(b), len(b[0])
      if cols_a != rows_b:
          raise ValueError("Incompatible matrix dimensions")
      b_transposed = [[b[j][i] for j in range(rows_b)] for i in range(cols_b)]
      result = [[0.0 for _ in range(cols_b)] for _ in range(rows_a)]
      for i in range(rows_a):
          for j in range(cols_b):
              result[i][j] = sum(a[i][k] * b_transposed[j][k] for k in range(cols_a))
      return result
  \<close>
  \<open>optimized_sum\<close> is \<open>sum(...)\<close> over the generator: it starts from \<open>0\<close> and adds
  the terms in the order of \<open>k\<close>. \<open>optimized_body\<close> is the assignment to
  \<open>result[i][j]\<close>.
\<close>

definition optimized_sum :: "matrix \<Rightarrow> matrix \<Rightarrow> nat \<Rightarrow> nat \<Rightarrow> nat \<Rightarrow> py_error + real" where
  "optimized_sum a b_transposed i j cols_a =
     for_py [0..<cols_a] (\<lambda>acc k.
       bind_py (nth_py a i) (\<lambda>ai.
       bind_py (nth_py ai k) (\<lambda>aik.
       bind_py (nth_py b_transposed j) (\<lambda>btj.
       bind_py (nth_py btj k) (\<lambda>btjk.
         Inr (acc + aik * btjk)))))) 0"

definition optimized_body :: "matrix \<Rightarrow> matrix \<Rightarrow> nat \<Rightarrow> nat \<Rightarrow> matrix \<Rightarrow> nat \<Rightarrow> py_error + matrix" where
  "optimized_body a b_transposed cols_a i result j =
     bind_py (optimized_sum a b_transposed i j cols_a) (\<lambda>v.
     bind_py (nth_py result i) (\<lambda>ri.
     bind_py (set_py ri j v) (\<lambda>ri'.
     set_py result i ri')))"

definition optimized_matrix_multiply :: "matrix \<Rightarrow> matrix \<Rightarrow> py_error + matrix" where
  "optimized_matrix_multiply a b =
     bind_py (nth_py a 0) (\<lambda>a0.
     bind_py (nth_py b 0) (\<lambda>b0.
       let rows_a = length a; cols_a = length a0;
           rows_b = length b; cols_b = length b0
       in if cols_a \<noteq> rows_b then Inl ValueError
          else bind_py (map_py [0..<cols_b] (\<lambda>i. map_py [0..<rows_b] (\<lambda>j.
                          bind_py (nth_py b j) (\<lambda>bj. nth_py bj i))))
               (\<lambda>b_transposed.
                  for_py [0..<rows_a] (\<lambda>result i.
                    for_py [0..<cols_b] (optimized_body a b_transposed cols_a i) result)
                    (replicate rows_a (replicate cols_b 0)))))"


text \<open>
  The mathematical product: entry \<open>(i, j)\<close> is the sum of \<open>a[i][k] * b[k][j]\<close> over
  \<open>k\<close>. A matrix is rectangular when it has at least one row and all its rows have the
  length of the first.
\<close>

definition dot :: "matrix \<Rightarrow> matrix \<Rightarrow> nat \<Rightarrow> nat \<Rightarrow> nat \<Rightarrow> real" where
  "dot a b i j n = (\<Sum>k<n. a ! i ! k * b ! k ! j)"

definition rectangular :: "matrix \<Rightarrow> bool" where
  "rectangular m = (m \<noteq> [] \<and> list_all (\<lambda>row. length row = length (m ! 0)) m)"

definition product :: "matrix \<Rightarrow> matrix \<Rightarrow> matrix" where
  "product a b =
     map (\<lambda>i. map (\<lambda>j. dot a b i j (length b)) [0..<length (b ! 0)]) [0..<length a]"

lemma bind_py_Inr [simp]: "bind_py (Inr v) f = f v"
  by (simp add: bind_py_def)

lemma bind_py_Inl [simp]: "bind_py (Inl e) f = Inl e"
  by (simp add: bind_py_def)

lemma nth_py_in [simp]: "i < length xs \<Longrightarrow> nth_py xs i = Inr (xs ! i)"
  by (simp add: nth_py_def)

lemma set_py_in [simp]: "i < length xs \<Longrightarrow> set_py xs i v = Inr (xs[i := v])"
  by (simp add: set_py_def)

lemma for_py_snoc:
  "for_py (xs @ [x]) body s = bind_py (for_py xs body s) (\<lambda>t. body t x)"
  by (induction xs arbitrary: s) (auto simp: bind_py_def split: sum.splits)

lemma for_py_upt_rule:
  assumes "P 0 s"
    and "\<And>k t. k < n \<Longrightarrow> P k t \<Longrightarrow> \<exists>t'. body t k = Inr t' \<and> P (Suc k) t'"
  shows "\<exists>t. for_py [0..<n] body s = Inr t \<and> P n t"
  using assms(2)
proof (induction n)
  case 0
  show ?case using assms(1) by simp
next
  case (Suc n)
  have "\<exists>t. for_py [0..<n] body s = Inr t \<and> P n t"
    by (rule Suc.IH) (simp add: Suc.prems)
  then obtain t where t: "for_py [0..<n] body s = Inr t" "P n t" by blast
  from Suc.prems [of n t] t(2) obtain t' where "body t n = Inr t'" "P (Suc n) t'"
    by auto
  with t(1) show ?case by (simp add: for_py_snoc)
qed

lemma map_py_total:
  "(\<And>x. x \<in> set xs \<Longrightarrow> f x = Inr (g x)) \<Longrightarrow> map_py xs f = Inr (map g xs)"
  by (induction xs) simp_all

lemma naive_k_loop:
  assumes "i < length a" "n \<le> length (a ! i)" "n \<le> length b"
    and "\<And>k. k < n \<Longrightarrow> j < length (b ! k)"
    and "i < length r" "j < length (r ! i)"
  shows "for_py [0..<n] (naive_body a b i j) r =
         Inr (r[i := (r ! i)[j := r ! i ! j + dot a b i j n]])"
proof -
  let ?P = "\<lambda>k t. t = r[i := (r ! i)[j := r ! i ! j + dot a b i j k]]"
  have "\<exists>t. for_py [0..<n] (naive_body a b i j) r = Inr t \<and> ?P n t"
  proof (rule for_py_upt_rule)
    show "?P 0 r" using assms(5,6) by (simp add: dot_def)
  next
    fix k t assume k: "k < n" and t: "?P k t"
    have "naive_body a b i j t k =
          Inr (r[i := (r ! i)[j := r ! i ! j + dot a b i j (Suc k)]])"
      using assms k unfolding t naive_body_def by (simp add: dot_def add.assoc)
    then show "\<exists>t'. naive_body a b i j t k = Inr t' \<and> ?P (Suc k) t'" by simp
  qed
  then show ?thesis by auto
qed


lemma naive_j_loop:
  assumes "i < length a" "ca \<le> length (a ! i)" "ca \<le> length b"
    and "\<And>k. k < ca \<Longrightarrow> m \<le> length (b ! k)"
    and "i < length r" "length (r ! i) = cb" "m \<le> cb"
  shows "for_py [0..<m] (\<lambda>result j. for_py [0..<ca] (naive_body a b i j) result) r =
         Inr (r[i := map (\<lambda>j. if j < m then r ! i ! j + dot a b i j ca else r ! i ! j) [0..<cb]])"
proof -
  let ?row = "\<lambda>m. map (\<lambda>j. if j < m then r ! i ! j + dot a b i j ca else r ! i ! j) [0..<cb]"
  let ?P = "\<lambda>m t. t = r[i := ?row m]"
  have "\<exists>t. for_py [0..<m] (\<lambda>result j. for_py [0..<ca] (naive_body a b i j) result) r = Inr t
            \<and> ?P m t"
  proof (rule for_py_upt_rule)
    have "?row 0 = r ! i"
      using assms(6) by (intro nth_equalityI) simp_all
    then show "?P 0 r" by simp
  next
    fix j t assume j: "j < m" and t: "?P j t"
    have ti: "t ! i = ?row j" using assms(5) t by simp
    have "for_py [0..<ca] (naive_body a b i j) t =
          Inr (t[i := (t ! i)[j := t ! i ! j + dot a b i j ca]])"
    proof (rule naive_k_loop)
      show "i < length a" "ca \<le> length (a ! i)" "ca \<le> length b" by (rule assms)+
      show "\<And>k. k < ca \<Longrightarrow> j < length (b ! k)" using assms(4) j by fastforce
      show "i < length t" using assms(5) t by simp
      show "j < length (t ! i)" using ti j assms(7) by simp
    qed
    moreover have "(?row j)[j := ?row j ! j + dot a b i j ca] = ?row (Suc j)"
      using j assms(7) by (intro nth_equalityI) (auto simp: nth_list_update)
    ultimately have "for_py [0..<ca] (naive_body a b i j) t = Inr (r[i := ?row (Suc j)])"
      using ti t by simp
    then show "\<exists>t'. for_py [0..<ca] (naive_body a b i j) t = Inr t' \<and> ?P (Suc j) t'"
      by simp
  qed
  then show ?thesis by auto
qed

lemma naive_i_loop:
  assumes "\<And>i. i < n \<Longrightarrow> ca \<le> length (a ! i)" "ca \<le> length b"
    and "\<And>k. k < ca \<Longrightarrow> cb \<le> length (b ! k)"
    and "length r = ra" "\<And>i. i < ra \<Longrightarrow> length (r ! i) = cb" "n \<le> ra" "n \<le> length a"
  shows "for_py [0..<n] (\<lambda>result i. for_py [0..<cb] (\<lambda>result j.
             for_py [0..<ca] (naive_body a b i j) result) result) r =
         Inr (map (\<lambda>i. if i < n then map (\<lambda>j. r ! i ! j + dot a b i j ca) [0..<cb] else r ! i)
                [0..<ra])"
proof -
  let ?mat = "\<lambda>n. map (\<lambda>i. if i < n then map (\<lambda>j. r ! i ! j + dot a b i j ca) [0..<cb]
                            else r ! i) [0..<ra]"
  let ?body = "\<lambda>result i. for_py [0..<cb] (\<lambda>result j.
                 for_py [0..<ca] (naive_body a b i j) result) result"
  have "\<exists>t. for_py [0..<n] ?body r = Inr t \<and> t = ?mat n"
  proof (rule for_py_upt_rule [where P = "\<lambda>n t. t = ?mat n"])
    show "r = ?mat 0"
      using assms(4) by (intro nth_equalityI) simp_all
  next
    fix i t assume i: "i < n" and t: "t = ?mat i"
    have ira: "i < ra" using i assms(6) by simp
    have ti: "t ! i = r ! i" using t ira by simp
    have "?body t i =
          Inr (t[i := map (\<lambda>j. if j < cb then t ! i ! j + dot a b i j ca else t ! i ! j)
                        [0..<cb]])"
    proof (rule naive_j_loop)
      show "i < length a" using i assms(7) by simp
      show "ca \<le> length (a ! i)" using assms(1) i by simp
      show "ca \<le> length b" by (rule assms)
      show "\<And>k. k < ca \<Longrightarrow> cb \<le> length (b ! k)" by (rule assms)
      show "i < length t" using t ira by simp
      show "length (t ! i) = cb" using ti assms(5) ira by simp
      show "cb \<le> cb" by simp
    qed
    moreover have "t[i := map (\<lambda>j. if j < cb then t ! i ! j + dot a b i j ca else t ! i ! j)
                        [0..<cb]] = ?mat (Suc i)"
      unfolding ti using ira unfolding t
      by (intro nth_equalityI) (auto simp: nth_list_update)
    ultimately show "\<exists>t'. ?body t i = Inr t' \<and> t' = ?mat (Suc i)" by simp
  qed
  then show ?thesis by auto
qed

lemma rectangular_nth:
  "rectangular m \<Longrightarrow> i < length m \<Longrightarrow> length (m ! i) = length (m ! 0)"
  unfolding rectangular_def list_all_length by blast

lemma naive_matrix_multiply_product:
  assumes "rectangular a" "rectangular b" "length (a ! 0) = length b"
  shows "naive_matrix_multiply a b = Inr (product a b)"
proof -
  let ?ra = "length a" and ?ca = "length b" and ?cb = "length (b ! 0)"
  let ?r = "replicate ?ra (replicate ?cb (0::real))"
  have ne: "0 < length a" "0 < length b"
    using assms by (auto simp: rectangular_def)
  have "for_py [0..<?ra] (\<lambda>result i. for_py [0..<?cb] (\<lambda>result j.
             for_py [0..<?ca] (naive_body a b i j) result) result) ?r =
        Inr (map (\<lambda>i. if i < ?ra then map (\<lambda>j. ?r ! i ! j + dot a b i j ?ca) [0..<?cb]
                       else ?r ! i) [0..<?ra])"
  proof (rule naive_i_loop)
    show "\<And>i. i < ?ra \<Longrightarrow> ?ca \<le> length (a ! i)"
      using assms(1,3) by (simp add: rectangular_nth)
    show "\<And>k. k < ?ca \<Longrightarrow> ?cb \<le> length (b ! k)"
      using assms(2) by (simp add: rectangular_nth)
  qed simp_all
  moreover have "map (\<lambda>i. if i < ?ra then map (\<lambda>j. ?r ! i ! j + dot a b i j ?ca) [0..<?cb]
                       else ?r ! i) [0..<?ra] = product a b"
    unfolding product_def by (intro nth_equalityI) simp_all
  ultimately show ?thesis
    using ne assms(3) by (simp add: naive_matrix_multiply_def)
qed


text \<open>The value of \<open>b_transposed\<close> for a rectangular \<open>b\<close>.\<close>

definition transposed :: "matrix \<Rightarrow> matrix" where
  "transposed b = map (\<lambda>i. map (\<lambda>j. b ! j ! i) [0..<length b]) [0..<length (b ! 0)]"

lemma transpose_loop:
  assumes "rectangular b"
  shows "map_py [0..<length (b ! 0)] (\<lambda>i. map_py [0..<length b] (\<lambda>j.
            bind_py (nth_py b j) (\<lambda>bj. nth_py bj i))) = Inr (transposed b)"
  unfolding transposed_def
proof (rule map_py_total)
  fix i assume "i \<in> set [0..<length (b ! 0)]"
  then have i: "i < length (b ! 0)" by simp
  show "map_py [0..<length b] (\<lambda>j. bind_py (nth_py b j) (\<lambda>bj. nth_py bj i)) =
        Inr (map (\<lambda>j. b ! j ! i) [0..<length b])"
  proof (rule map_py_total)
    fix j assume "j \<in> set [0..<length b]"
    then have j: "j < length b" by simp
    then have "i < length (b ! j)" using assms i by (simp add: rectangular_nth)
    with j show "bind_py (nth_py b j) (\<lambda>bj. nth_py bj i) = Inr (b ! j ! i)" by simp
  qed
qed

lemma optimized_sum_dot:
  assumes "i < length a" "n \<le> length (a ! i)" "n \<le> length b" "j < length (b ! 0)"
  shows "optimized_sum a (transposed b) i j n = Inr (dot a b i j n)"
proof -
  let ?body = "\<lambda>acc k.
       bind_py (nth_py a i) (\<lambda>ai.
       bind_py (nth_py ai k) (\<lambda>aik.
       bind_py (nth_py (transposed b) j) (\<lambda>btj.
       bind_py (nth_py btj k) (\<lambda>btjk.
         Inr (acc + aik * btjk)))))"
  have "\<exists>t. for_py [0..<n] ?body 0 = Inr t \<and> t = dot a b i j n"
  proof (rule for_py_upt_rule [where P = "\<lambda>k t. t = dot a b i j k"])
    show "0 = dot a b i j 0" by (simp add: dot_def)
  next
    fix k t assume k: "k < n" and t: "t = dot a b i j k"
    have "?body t k = Inr (dot a b i j (Suc k))"
      using assms k t by (simp add: transposed_def dot_def)
    then show "\<exists>t'. ?body t k = Inr t' \<and> t' = dot a b i j (Suc k)" by simp
  qed
  then show ?thesis by (auto simp: optimized_sum_def)
qed

lemma optimized_j_loop:
  assumes "i < length a" "ca \<le> length (a ! i)" "ca \<le> length b" "m \<le> length (b ! 0)"
    and "i < length r" "length (r ! i) = cb" "m \<le> cb"
  shows "for_py [0..<m] (optimized_body a (transposed b) ca i) r =
         Inr (r[i := map (\<lambda>j. if j < m then dot a b i j ca else r ! i ! j) [0..<cb]])"
proof -
  let ?row = "\<lambda>m. map (\<lambda>j. if j < m then dot a b i j ca else r ! i ! j) [0..<cb]"
  have "\<exists>t. for_py [0..<m] (optimized_body a (transposed b) ca i) r = Inr t
            \<and> t = r[i := ?row m]"
  proof (rule for_py_upt_rule [where P = "\<lambda>m t. t = r[i := ?row m]"])
    have "?row 0 = r ! i"
      using assms(6) by (intro nth_equalityI) simp_all
    then show "r = r[i := ?row 0]" by simp
  next
    fix j t assume j: "j < m" and t: "t = r[i := ?row j]"
    have ti: "t ! i = ?row j" using assms(5) t by simp
    have "optimized_sum a (transposed b) i j ca = Inr (dot a b i j ca)"
      using assms j by (intro optimized_sum_dot) simp_all
    moreover have "(?row j)[j := dot a b i j ca] = ?row (Suc j)"
      using j assms(7) by (intro nth_equalityI) (auto simp: nth_list_update)
    ultimately have "optimized_body a (transposed b) ca i t j = Inr (r[i := ?row (Suc j)])"
      using ti t j assms(5,7) by (simp add: optimized_body_def)
    then show "\<exists>t'. optimized_body a (transposed b) ca i t j = Inr t' \<and> t' = r[i := ?row (Suc j)]"
      by simp
  qed
  then show ?thesis by auto
qed

lemma optimized_i_loop:
  assumes "\<And>i. i < n \<Longrightarrow> ca \<le> length (a ! i)" "ca \<le> length b"
    and "length r = ra" "\<And>i. i < ra \<Longrightarrow> length (r ! i) = length (b ! 0)"
    and "n \<le> ra" "n \<le> length a"
  shows "for_py [0..<n] (\<lambda>result i.
             for_py [0..<length (b ! 0)] (optimized_body a (transposed b) ca i) result) r =
         Inr (map (\<lambda>i. if i < n then map (\<lambda>j. dot a b i j ca) [0..<length (b ! 0)] else r ! i)
                [0..<ra])"
proof -
  let ?cb = "length (b ! 0)"
  let ?mat = "\<lambda>n. map (\<lambda>i. if i < n then map (\<lambda>j. dot a b i j ca) [0..<?cb] else r ! i)
                    [0..<ra]"
  let ?body = "\<lambda>result i.
                 for_py [0..<?cb] (optimized_body a (transposed b) ca i) result"
  have "\<exists>t. for_py [0..<n] ?body r = Inr t \<and> t = ?mat n"
  proof (rule for_py_upt_rule [where P = "\<lambda>n t. t = ?mat n"])
    show "r = ?mat 0"
      using assms(3) by (intro nth_equalityI) simp_all
  next
    fix i t assume i: "i < n" and t: "t = ?mat i"
    have ira: "i < ra" using i assms(5) by simp
    have ti: "t ! i = r ! i" using t ira by simp
    have "?body t i =
          Inr (t[i := map (\<lambda>j. if j < ?cb then dot a b i j ca else t ! i ! j) [0..<?cb]])"
    proof (rule optimized_j_loop)
      show "i < length a" using i assms(6) by simp
      show "ca \<le> length (a ! i)" using assms(1) i by simp
      show "ca \<le> length b" by (rule assms)
      show "i < length t" using t ira by simp
      show "length (t ! i) = ?cb" using ti assms(4) ira by simp
    qed simp_all
    moreover have "t[i := map (\<lambda>j. if j < ?cb then dot a b i j ca else t ! i ! j) [0..<?cb]]
                   = ?mat (Suc i)"
      unfolding ti using ira unfolding t
      by (intro nth_equalityI) (auto simp: nth_list_update)
    ultimately show "\<exists>t'. ?body t i = Inr t' \<and> t' = ?mat (Suc i)" by simp
  qed
  then show ?thesis by auto
qed

lemma optimized_matrix_multiply_product:
  assumes "rectangular a" "rectangular b" "length (a ! 0) = length b"
  shows "optimized_matrix_multiply a b = Inr (product a b)"
proof -
  let ?ra = "length a" and ?ca = "length b" and ?cb = "length (b ! 0)"
  let ?r = "replicate ?ra (replicate ?cb (0::real))"
  have ne: "0 < length a" "0 < length b"
    using assms by (auto simp: rectangular_def)
  have "for_py [0..<?ra] (\<lambda>result i.
             for_py [0..<?cb] (optimized_body a (transposed b) ?ca i) result) ?r =
        Inr (map (\<lambda>i. if i < ?ra then map (\<lambda>j. dot a b i j ?ca) [0..<?cb] else ?r ! i)
               [0..<?ra])"
  proof (rule optimized_i_loop)
    show "\<And>i. i < ?ra \<Longrightarrow> ?ca \<le> length (a ! i)"
      using assms(1,3) by (simp add: rectangular_nth)
  qed simp_all
  moreover have "map (\<lambda>i. if i < ?ra then map (\<lambda>j. dot a b i j ?ca) [0..<?cb] else ?r ! i)
                   [0..<?ra] = product a b"
    unfolding product_def by (intro nth_equalityI) simp_all
  ultimately show ?thesis
    using ne assms(2,3) by (simp add: optimized_matrix_multiply_def transpose_loop)
qed

text \<open>
  Claim C8. For non-empty rectangular matrices \<open>a\<close> and \<open>b\<close> with as many columns in
  \<open>a\<close> as rows in \<open>b\<close>, \<open>optimized_matrix_multiply(a, b)\<close> returns the same matrix
  as \<open>naive_matrix_multiply(a, b)\<close>, and that matrix is the product of \<open>a\<close> and \<open>b\<close>
  (arithmetic read exactly).
\<close>

theorem optimized_eq_naive:
  assumes "rectangular a" "rectangular b" "length (a ! 0) = length b"
  shows "optimized_matrix_multiply a b = naive_matrix_multiply a b \<and>
         naive_matrix_multiply a b = Inr (product a b)"
  using assms
  by (simp add: optimized_matrix_multiply_product naive_matrix_multiply_product)

theorem optimized_eq_naive_witness:
  "rectangular [[1, 2], [3, 4]] \<and> rectangular [[5, 6], [7, 8]] \<and>
   length ([[1, 2], [3, 4 :: real]] ! 0) = length [[5, 6], [7, 8 :: real]] \<and>
   optimized_matrix_multiply [[1, 2], [3, 4]] [[5, 6], [7, 8]] =
     naive_matrix_multiply [[1, 2], [3, 4]] [[5, 6], [7, 8]] \<and>
   naive_matrix_multiply [[1, 2], [3, 4]] [[5, 6], [7, 8]] = Inr [[19, 22], [43, 50]]"
proof -
  have r: "rectangular [[1, 2], [3, 4 :: real]]" "rectangular [[5, 6], [7, 8 :: real]]"
    by (simp_all add: rectangular_def)
  have l: "length ([[1, 2], [3, 4 :: real]] ! 0) = length [[5, 6], [7, 8 :: real]]" by simp
  have p: "product [[1, 2], [3, 4]] [[5, 6], [7, 8]] = [[19, 22], [43, 50]]"
    by (simp add: product_def dot_def upt_rec lessThan_Suc numeral_2_eq_2)
  show ?thesis
    using optimized_eq_naive [OF r l] r l p by simp
qed

text \<open>
  Claim C10. For non-empty rectangular matrices \<open>a\<close> and \<open>b\<close>,
  \<open>naive_matrix_multiply(a, b)\<close> raises \<open>ValueError\<close> exactly when the number of columns
  of \<open>a\<close> differs from the number of rows of \<open>b\<close>; when they agree it returns a matrix
  with \<open>len(a)\<close> rows, each of \<open>len(b[0])\<close> entries.
\<close>

theorem naive_matrix_multiply_dimensions:
  assumes "rectangular a" "rectangular b"
  shows "(naive_matrix_multiply a b = Inl ValueError \<longleftrightarrow> length (a ! 0) \<noteq> length b) \<and>
         (length (a ! 0) = length b \<longrightarrow>
            (\<exists>c. naive_matrix_multiply a b = Inr c \<and> length c = length a \<and>
                 list_all (\<lambda>row. length row = length (b ! 0)) c))"
proof -
  have ne: "0 < length a" "0 < length b"
    using assms by (auto simp: rectangular_def)
  have "naive_matrix_multiply a b = Inl ValueError" if "length (a ! 0) \<noteq> length b"
    using that ne by (simp add: naive_matrix_multiply_def)
  moreover have "naive_matrix_multiply a b = Inr (product a b)" if "length (a ! 0) = length b"
    using that assms by (rule naive_matrix_multiply_product [rotated 2])
  moreover have "length (product a b) = length a"
    "list_all (\<lambda>row. length row = length (b ! 0)) (product a b)"
    by (simp_all add: product_def list_all_length)
  ultimately show ?thesis by auto
qed

theorem naive_matrix_multiply_dimensions_witness:
  "rectangular [[1, 2, 3]] \<and> rectangular [[5], [7], [9]] \<and>
   naive_matrix_multiply [[1, 2, 3]] [[5], [7], [9]] \<noteq> Inl ValueError \<and>
   length ([[1, 2, 3 :: real]] ! 0) = length [[5], [7], [9 :: real]] \<and>
   (\<exists>c. naive_matrix_multiply [[1, 2, 3]] [[5], [7], [9]] = Inr c \<and> length c = 1 \<and>
        list_all (\<lambda>row. length row = 1) c)"
proof -
  have r: "rectangular [[1, 2, 3 :: real]]" "rectangular [[5], [7], [9 :: real]]"
    by (simp_all add: rectangular_def)
  show ?thesis
    using naive_matrix_multiply_dimensions [OF r] r by simp
qed

section \<open>The sieve of \<open>python/1_basic_cpu_profiling.py\<close>\<close>

text \<open>
  \<^verbatim>\<open>
  def prime_sieve(limit):
      sieve = [True] * (limit + 1)
      sieve[0] = sieve[1] = False
      for i in range(2, int(math.sqrt(limit)) + 1):
          if sieve[i]:
              for j in range(i*i, limit + 1, i):
                  sieve[j] = False
      return [i for i in range(2, limit + 1) if sieve[i]]
  \<close>
  \<open>[True] * (limit + 1)\<close> is the empty list when \<open>limit + 1\<close> is not positive, so the
  two stores raise \<open>IndexError\<close> for \<open>limit < 1\<close>. \<open>math.sqrt\<close> is read exactly:
  \<open>int(math.sqrt(limit))\<close> is the floor of the real square root (the double-precision
  root truncates to the same integer for every \<open>limit\<close> below \<open>2^52\<close>).
  \<open>range_step\<close> is \<open>range(start, stop, step)\<close> for a positive step; its length is
  computed as CPython does. \<open>filter_py\<close> is a list comprehension with a condition
  that can raise.
\<close>

definition range_step :: "nat \<Rightarrow> nat \<Rightarrow> nat \<Rightarrow> nat list" where
  "range_step start stop step =
     map (\<lambda>t. start + t * step) [0..<(stop - start + step - 1) div step]"

fun filter_py :: "nat list \<Rightarrow> (nat \<Rightarrow> py_error + bool) \<Rightarrow> py_error + nat list" where
  "filter_py [] c = Inr []"
| "filter_py (x # xs) c =
     (case c x of Inl e \<Rightarrow> Inl e
      | Inr keep \<Rightarrow> (case filter_py xs c of Inl e \<Rightarrow> Inl e
                     | Inr ys \<Rightarrow> Inr (if keep then x # ys else ys)))"

definition sieve_inner :: "nat \<Rightarrow> nat \<Rightarrow> bool list \<Rightarrow> py_error + bool list" where
  "sieve_inner limit i sieve =
     for_py (range_step (i * i) (limit + 1) i) (\<lambda>sieve j. set_py sieve j False) sieve"

definition sieve_outer :: "nat \<Rightarrow> bool list \<Rightarrow> nat \<Rightarrow> py_error + bool list" where
  "sieve_outer limit sieve i =
     bind_py (nth_py sieve i) (\<lambda>si.
       if si then sieve_inner limit i sieve else Inr sieve)"

definition prime_sieve :: "int \<Rightarrow> py_error + int list" where
  "prime_sieve limit =
     bind_py (set_py (replicate (nat (limit + 1)) True) 0 False) (\<lambda>sieve.
     bind_py (set_py sieve 1 False) (\<lambda>sieve.
     if limit < 0 then Inl ValueError
     else
       bind_py (for_py [2..<nat \<lfloor>sqrt (real_of_int limit)\<rfloor> + 1]
                  (sieve_outer (nat limit)) sieve) (\<lambda>sieve.
       bind_py (filter_py [2..<nat limit + 1] (nth_py sieve)) (\<lambda>ps.
       Inr (map int ps)))))"

definition is_prime :: "int \<Rightarrow> bool" where
  "is_prime p = (1 < p \<and> (\<forall>d\<in>{2..<p}. \<not> d dvd p))"

lemma range_step_len: "0 < step \<Longrightarrow> t < (d + step - 1) div step \<longleftrightarrow> t * step < (d::nat)"
proof -
  assume s: "0 < step"
  have "t < (d + step - 1) div step \<longleftrightarrow> Suc t \<le> (d + step - 1) div step" by auto
  also have "\<dots> \<longleftrightarrow> Suc t * step \<le> d + step - 1"
    using s by (simp add: less_eq_div_iff_mult_less_eq)
  also have "\<dots> \<longleftrightarrow> t * step < d" using s by auto
  finally show ?thesis .
qed

lemma set_range_step:
  assumes "0 < step"
  shows "set (range_step start stop step) =
         {k. start \<le> k \<and> k < stop \<and> step dvd (k - start)}"
proof (rule set_eqI)
  fix k
  have "k \<in> set (range_step start stop step) \<longleftrightarrow>
        (\<exists>t. t * step < stop - start \<and> k = start + t * step)"
  proof -
    have "k \<in> set (range_step start stop step) \<longleftrightarrow>
          (\<exists>t. t < (stop - start + step - 1) div step \<and> k = start + t * step)"
      unfolding range_step_def by (auto simp del: One_nat_def)
    then show ?thesis
      unfolding range_step_len [OF assms] .
  qed
  also have "\<dots> \<longleftrightarrow> start \<le> k \<and> k < stop \<and> step dvd (k - start)"
  proof
    assume "\<exists>t. t * step < stop - start \<and> k = start + t * step"
    then show "start \<le> k \<and> k < stop \<and> step dvd (k - start)" by auto
  next
    assume h: "start \<le> k \<and> k < stop \<and> step dvd (k - start)"
    then obtain t where "k - start = step * t" by (auto simp: dvd_def)
    with h have "t * step < stop - start \<and> k = start + t * step"
      by (auto simp: mult.commute)
    then show "\<exists>t. t * step < stop - start \<and> k = start + t * step" ..
  qed
  finally show "k \<in> set (range_step start stop step) \<longleftrightarrow>
                k \<in> {k. start \<le> k \<and> k < stop \<and> step dvd (k - start)}" by simp
qed

lemma clear_loop:
  "(\<And>x. x \<in> set xs \<Longrightarrow> x < length s) \<Longrightarrow>
   for_py xs (\<lambda>sieve j. set_py sieve j False) s =
   Inr (map (\<lambda>k. s ! k \<and> k \<notin> set xs) [0..<length s])"
proof (induction xs arbitrary: s)
  case Nil
  show ?case by (simp add: map_nth)
next
  case (Cons x xs)
  have "for_py xs (\<lambda>sieve j. set_py sieve j False) (s[x := False]) =
        Inr (map (\<lambda>k. s[x := False] ! k \<and> k \<notin> set xs) [0..<length (s[x := False])])"
    by (rule Cons.IH) (simp add: Cons.prems)
  moreover have "map (\<lambda>k. s[x := False] ! k \<and> k \<notin> set xs) [0..<length (s[x := False])]
               = map (\<lambda>k. s ! k \<and> k \<notin> set (x # xs)) [0..<length s]"
    using Cons.prems by (auto simp: nth_list_update)
  ultimately show ?case using Cons.prems by simp
qed

lemma sieve_inner_marks:
  assumes "length s = limit + 1" "0 < i"
  shows "sieve_inner limit i s =
         Inr (map (\<lambda>k. s ! k \<and> \<not> (i * i \<le> k \<and> i dvd k)) [0..<limit + 1])"
proof -
  have mem: "k \<in> set (range_step (i * i) (Suc limit) i) \<longleftrightarrow> i * i \<le> k \<and> k \<le> limit \<and> i dvd k"
    for k
  proof -
    have "i dvd (k - i * i) \<longleftrightarrow> i dvd k" if "i * i \<le> k"
    proof -
      from that have "k = (k - i * i) + i * i" by simp
      then show ?thesis by (metis dvd_add_times_triv_right_iff)
    qed
    then show ?thesis using assms(2) by (auto simp: set_range_step)
  qed
  have "sieve_inner limit i s =
        Inr (map (\<lambda>k. s ! k \<and> k \<notin> set (range_step (i * i) (limit + 1) i)) [0..<length s])"
    unfolding sieve_inner_def by (rule clear_loop) (use mem assms(1) in auto)
  also have "map (\<lambda>k. s ! k \<and> k \<notin> set (range_step (i * i) (limit + 1) i)) [0..<length s]
           = map (\<lambda>k. s ! k \<and> \<not> (i * i \<le> k \<and> i dvd k)) [0..<limit + 1]"
    using assms(1) by (auto simp: mem)
  finally show ?thesis .
qed


text \<open>
  Primality, on the integers the function returns and on the indices of the sieve; and
  the invariant of the outer loop before it handles \<open>m\<close>: an index is still marked iff
  it is at least 2 and has no divisor \<open>d\<close> with \<open>2 \<le> d < m\<close> and \<open>d * d \<le> k\<close>.
\<close>

definition prime_nat :: "nat \<Rightarrow> bool" where
  "prime_nat k = (2 \<le> k \<and> (\<forall>d. 2 \<le> d \<and> d < k \<longrightarrow> \<not> d dvd k))"

definition sieve_inv :: "nat \<Rightarrow> nat \<Rightarrow> bool list \<Rightarrow> bool" where
  "sieve_inv limit m s =
     (length s = limit + 1 \<and>
      (\<forall>k\<le>limit. s ! k \<longleftrightarrow> 2 \<le> k \<and> \<not> (\<exists>d. 2 \<le> d \<and> d < m \<and> d * d \<le> k \<and> d dvd k)))"

lemma for_py_range_rule:
  assumes "a \<le> b" "P a s"
    and "\<And>k t. a \<le> k \<Longrightarrow> k < b \<Longrightarrow> P k t \<Longrightarrow> \<exists>t'. body t k = Inr t' \<and> P (Suc k) t'"
  shows "\<exists>t. for_py [a..<b] body s = Inr t \<and> P b t"
  using assms(1)
proof (induction rule: dec_induct)
  case base
  show ?case using assms(2) by simp
next
  case (step n)
  then obtain t where t: "for_py [a..<n] body s = Inr t" "P n t" by blast
  from assms(3) [OF step.hyps(1,2) t(2)] obtain t' where "body t n = Inr t'" "P (Suc n) t'"
    by auto
  with t(1) step.hyps(1) show ?case by (simp add: for_py_snoc)
qed

lemma filter_py_total:
  "(\<And>x. x \<in> set xs \<Longrightarrow> c x = Inr (g x)) \<Longrightarrow> filter_py xs c = Inr (filter g xs)"
  by (induction xs) simp_all

lemma sieve_outer_step:
  assumes inv: "sieve_inv limit m s" and m: "2 \<le> m" "m \<le> limit"
  shows "\<exists>s'. sieve_outer limit s m = Inr s' \<and> sieve_inv limit (Suc m) s'"
proof (cases "s ! m")
  case True
  let ?s' = "map (\<lambda>k. s ! k \<and> \<not> (m * m \<le> k \<and> m dvd k)) [0..<limit + 1]"
  have len: "length s = limit + 1" using inv by (simp add: sieve_inv_def)
  have "sieve_outer limit s m = Inr ?s'"
    using True m len by (simp add: sieve_outer_def sieve_inner_marks)
  moreover have "sieve_inv limit (Suc m) ?s'"
    unfolding sieve_inv_def
  proof (intro conjI allI impI)
    show "length ?s' = limit + 1" by simp
  next
    fix k assume k: "k \<le> limit"
    have "?s' ! k \<longleftrightarrow> s ! k \<and> \<not> (m * m \<le> k \<and> m dvd k)"
      using k by (simp del: upt_Suc add: nth_map_upt)
    also have "s ! k \<longleftrightarrow> 2 \<le> k \<and> \<not> (\<exists>d. 2 \<le> d \<and> d < m \<and> d * d \<le> k \<and> d dvd k)"
      using inv k by (simp add: sieve_inv_def)
    finally show "?s' ! k \<longleftrightarrow>
        2 \<le> k \<and> \<not> (\<exists>d. 2 \<le> d \<and> d < Suc m \<and> d * d \<le> k \<and> d dvd k)"
      using m(1) by (auto simp: less_Suc_eq)
  qed
  ultimately show ?thesis by blast
next
  case False
  have len: "length s = limit + 1" using inv by (simp add: sieve_inv_def)
  have "sieve_outer limit s m = Inr s"
    using False m len by (simp add: sieve_outer_def)
  moreover have "sieve_inv limit (Suc m) s"
    unfolding sieve_inv_def
  proof (intro conjI allI impI)
    show "length s = limit + 1" by (rule len)
  next
    fix k assume k: "k \<le> limit"
    from False inv m obtain d where d: "2 \<le> d" "d < m" "d * d \<le> m" "d dvd m"
      by (auto simp: sieve_inv_def)
    have "\<exists>e. 2 \<le> e \<and> e < m \<and> e * e \<le> k \<and> e dvd k" if "m * m \<le> k" "m dvd k"
    proof -
      have "m \<le> m * m" by simp
      with d(3) that(1) have "d * d \<le> k" by linarith
      moreover have "d dvd k" using d(4) that(2) by (rule dvd_trans)
      ultimately have "2 \<le> d \<and> d < m \<and> d * d \<le> k \<and> d dvd k"
        using d(1,2) by simp
      then show ?thesis ..
    qed
    then have "(\<exists>d. 2 \<le> d \<and> d < Suc m \<and> d * d \<le> k \<and> d dvd k) \<longleftrightarrow>
               (\<exists>d. 2 \<le> d \<and> d < m \<and> d * d \<le> k \<and> d dvd k)"
      by (auto simp: less_Suc_eq)
    then show "s ! k \<longleftrightarrow>
        2 \<le> k \<and> \<not> (\<exists>d. 2 \<le> d \<and> d < Suc m \<and> d * d \<le> k \<and> d dvd k)"
      using inv k by (simp add: sieve_inv_def)
  qed
  ultimately show ?thesis by blast
qed

lemma sieve_inv_prime:
  assumes inv: "sieve_inv limit (Suc r) s" and r: "limit < Suc r * Suc r" and k: "k \<le> limit"
  shows "s ! k \<longleftrightarrow> prime_nat k"
proof -
  have sk: "s ! k \<longleftrightarrow> 2 \<le> k \<and> \<not> (\<exists>d. 2 \<le> d \<and> d < Suc r \<and> d * d \<le> k \<and> d dvd k)"
    using inv k by (simp add: sieve_inv_def)
  show ?thesis
  proof
    assume sk': "s ! k"
    have False if d: "2 \<le> d" "d < k" "d dvd k" for d
    proof -
      from d(3) obtain e where e: "k = d * e" by (auto simp: dvd_def)
      with d(1,2) have e2: "2 \<le> e" by (cases e) auto
      define c where "c = min d e"
      have c: "2 \<le> c" "c dvd k" "c * c \<le> k"
        using d(1) e e2 by (auto simp: c_def min_def mult_le_mono)
      have "c < Suc r"
      proof (rule ccontr)
        assume "\<not> c < Suc r"
        then have "Suc r * Suc r \<le> c * c" by (intro mult_le_mono) simp_all
        with c(3) k r show False by simp
      qed
      with c sk sk' show False by blast
    qed
    with sk sk' show "prime_nat k" by (auto simp: prime_nat_def)
  next
    assume p: "prime_nat k"
    have False if d: "2 \<le> d" "d * d \<le> k" "d dvd k" for d
    proof -
      have "d * 2 \<le> d * d" using d(1) by (intro mult_le_mono) simp_all
      with d(1,2) have "d < k" by linarith
      with p d show False by (auto simp: prime_nat_def)
    qed
    with p sk show "s ! k" by (auto simp: prime_nat_def)
  qed
qed

lemma floor_sqrt_bounds:
  fixes n :: nat
  defines "r \<equiv> nat \<lfloor>sqrt (real n)\<rfloor>"
  shows "r \<le> n" and "n < Suc r * Suc r"
proof -
  have nn: "0 \<le> sqrt (real n)" by simp
  then have rr: "real r = of_int \<lfloor>sqrt (real n)\<rfloor>" by (simp add: r_def)
  have le: "real r \<le> sqrt (real n)" and lt: "sqrt (real n) < real r + 1"
    unfolding rr by linarith+
  have "real r * real r \<le> real n"
    using le by (metis abs_of_nonneg of_nat_0_le_iff real_sqrt_abs2 real_sqrt_le_iff
        real_sqrt_mult_self)
  then have "r * r \<le> n" by (metis of_nat_le_iff of_nat_mult)
  moreover have "r \<le> r * r" by simp
  ultimately show "r \<le> n" by linarith
  have "sqrt (real n) < sqrt ((real r + 1)\<^sup>2)" using lt by simp
  then have "real n < (real r + 1)\<^sup>2" by (simp only: real_sqrt_less_iff)
  then have "real n < real (Suc r * Suc r)" by (simp add: power2_eq_square algebra_simps)
  then show "n < Suc r * Suc r" by (simp only: of_nat_less_iff)
qed


lemma sieve_loops:
  assumes r: "r \<le> limit" "limit < Suc r * Suc r" and l: "1 \<le> limit"
  shows "\<exists>s. for_py [2..<r + 1] (sieve_outer limit)
               ((replicate (limit + 1) True)[0 := False, 1 := False]) = Inr s \<and>
             length s = limit + 1 \<and> (\<forall>k\<le>limit. s ! k \<longleftrightarrow> prime_nat k)"
proof -
  let ?s0 = "(replicate (limit + 1) True)[0 := False, 1 := False]"
  have r1: "1 \<le> r"
  proof (rule ccontr)
    assume "\<not> 1 \<le> r"
    then have "r = 0" by simp
    with r(2) l show False by simp
  qed
  have init: "sieve_inv limit 2 ?s0"
    unfolding sieve_inv_def
  proof (intro conjI allI impI)
    show "length ?s0 = limit + 1" by simp
  next
    fix k assume "k \<le> limit"
    then have "?s0 ! k \<longleftrightarrow> 2 \<le> k"
      by (cases k) (auto simp: nth_list_update nth_Cons' Suc_le_eq numeral_2_eq_2)
    then show "?s0 ! k \<longleftrightarrow> 2 \<le> k \<and> \<not> (\<exists>d. 2 \<le> d \<and> d < 2 \<and> d * d \<le> k \<and> d dvd k)"
      by auto
  qed
  have "\<exists>s. for_py [2..<Suc r] (sieve_outer limit) ?s0 = Inr s \<and> sieve_inv limit (Suc r) s"
  proof (rule for_py_range_rule [where P = "sieve_inv limit"])
    show "2 \<le> Suc r" using r1 by simp
    show "sieve_inv limit 2 ?s0" by (rule init)
  next
    fix k t assume "2 \<le> k" "k < Suc r" "sieve_inv limit k t"
    then show "\<exists>t'. sieve_outer limit t k = Inr t' \<and> sieve_inv limit (Suc k) t'"
      using r(1) by (intro sieve_outer_step) simp_all
  qed
  then obtain s where s: "for_py [2..<Suc r] (sieve_outer limit) ?s0 = Inr s"
    "sieve_inv limit (Suc r) s" by blast
  have "length s = limit + 1" using s(2) by (simp add: sieve_inv_def)
  moreover have "\<forall>k\<le>limit. s ! k \<longleftrightarrow> prime_nat k"
    using sieve_inv_prime [OF s(2) r(2)] by simp
  ultimately show ?thesis using s(1) by simp
qed

lemma prime_sieve_returns:
  assumes "1 \<le> limit"
  shows "prime_sieve limit = Inr (map int (filter prime_nat [2..<nat limit + 1]))"
proof -
  define n where "n = nat limit"
  define r where "r = nat \<lfloor>sqrt (real n)\<rfloor>"
  have n: "1 \<le> n" "limit = int n" "nat (limit + 1) = n + 1"
    using assms by (simp_all add: n_def)
  have rl: "real_of_int limit = real n" using n(2) by simp
  have "r \<le> n" "n < Suc r * Suc r"
    unfolding r_def by (rule floor_sqrt_bounds)+
  from sieve_loops [OF this n(1)] obtain s where s:
    "for_py [2..<r + 1] (sieve_outer n) ((replicate (n + 1) True)[0 := False, 1 := False]) = Inr s"
    "length s = n + 1" "\<forall>k\<le>n. s ! k \<longleftrightarrow> prime_nat k" by blast
  have "filter_py [2..<n + 1] (nth_py s) = Inr (filter prime_nat [2..<n + 1])"
  proof (rule filter_py_total)
    fix x assume "x \<in> set [2..<n + 1]"
    then have "x \<le> n" by auto
    with s(2,3) show "nth_py s x = Inr (prime_nat x)" by simp
  qed
  with s(1) n show ?thesis
    unfolding prime_sieve_def rl r_def [symmetric] n_def [symmetric]
    by (simp del: upt_Suc)
qed

lemma is_prime_int: "is_prime (int k) \<longleftrightarrow> prime_nat k"
proof
  assume p: "is_prime (int k)"
  have "\<not> d dvd k" if "2 \<le> d" "d < k" for d
  proof -
    from that have "int d \<in> {2..<int k}" by simp
    with p have "\<not> int d dvd int k" unfolding is_prime_def by blast
    then show ?thesis by simp
  qed
  with p show "prime_nat k" by (auto simp: is_prime_def prime_nat_def)
next
  assume p: "prime_nat k"
  have "\<not> d dvd int k" if "d \<in> {2..<int k}" for d
  proof -
    from that have "2 \<le> nat d" "nat d < k" "d = int (nat d)" by auto
    with p show ?thesis unfolding prime_nat_def by (metis int_dvd_int_iff)
  qed
  with p show "is_prime (int k)" by (auto simp: is_prime_def prime_nat_def)
qed

lemma primes_upto_set:
  "set (map int (filter prime_nat [2..<n + 1])) = {p. is_prime p \<and> p \<le> int n}"
proof (rule set_eqI)
  fix p
  show "p \<in> set (map int (filter prime_nat [2..<n + 1])) \<longleftrightarrow>
        p \<in> {p. is_prime p \<and> p \<le> int n}"
  proof
    assume "p \<in> set (map int (filter prime_nat [2..<n + 1]))"
    then obtain k where "p = int k" "prime_nat k" "k \<le> n" by auto
    then show "p \<in> {p. is_prime p \<and> p \<le> int n}" by (simp add: is_prime_int)
  next
    assume "p \<in> {p. is_prime p \<and> p \<le> int n}"
    then have p: "is_prime p" "p \<le> int n" by simp_all
    then have "1 < p" by (simp add: is_prime_def)
    then have pk: "p = int (nat p)" by simp
    with p(1) have "prime_nat (nat p)" by (metis is_prime_int)
    moreover from this have "2 \<le> nat p" by (simp add: prime_nat_def)
    moreover have "nat p \<le> n" using p(2) by simp
    ultimately have "nat p \<in> set (filter prime_nat [2..<n + 1])"
      by (simp del: upt_Suc)
    then have "int (nat p) \<in> set (map int (filter prime_nat [2..<n + 1]))"
      unfolding set_map by (rule imageI)
    with pk show "p \<in> set (map int (filter prime_nat [2..<n + 1]))" by simp
  qed
qed

lemma primes_upto_sorted: "sorted_wrt (<) (map int (filter prime_nat [2..<n + 1]))"
proof -
  have "sorted_wrt (<) [2..<n + 1]" by (rule sorted_wrt_upt)
  then have "sorted_wrt (<) (filter prime_nat [2..<n + 1])" by (rule sorted_wrt_filter)
  then show ?thesis by (simp add: sorted_wrt_map)
qed

lemma floor_sqrt_10: "nat \<lfloor>sqrt (real_of_int 10)\<rfloor> = 3"
proof -
  have "3 \<le> sqrt 10" by (rule real_le_rsqrt) simp
  moreover have "sqrt 10 < 4" by (rule real_less_lsqrt) simp_all
  ultimately have "\<lfloor>sqrt 10\<rfloor> = 3" by linarith
  then show ?thesis by simp
qed

lemma prime_sieve_10: "prime_sieve 10 = Inr [2, 3, 5, 7]"
  unfolding prime_sieve_def floor_sqrt_10
  by code_simp

text \<open>
  Claim C4. For every integer \<open>limit \<ge> 2\<close>, \<open>prime_sieve(limit)\<close> returns the strictly
  ascending list of exactly the primes that are at most \<open>limit\<close>; and
  \<open>prime_sieve(10) = [2, 3, 5, 7]\<close>.
\<close>

theorem prime_sieve_correct:
  assumes "2 \<le> limit"
  shows "(\<exists>ps. prime_sieve limit = Inr ps \<and> sorted_wrt (<) ps \<and>
               set ps = {p. is_prime p \<and> p \<le> limit}) \<and>
         prime_sieve 10 = Inr [2, 3, 5, 7]"
proof -
  have l: "1 \<le> limit" "limit = int (nat limit)" using assms by simp_all
  have "set (map int (filter prime_nat [2..<nat limit + 1])) = {p. is_prime p \<and> p \<le> limit}"
    using primes_upto_set [of "nat limit"] l(2) by simp
  then show ?thesis
    using prime_sieve_returns [OF l(1)] primes_upto_sorted [of "nat limit"] prime_sieve_10
    by simp
qed

theorem prime_sieve_correct_witness:
  "(2::int) \<le> 10 \<and> prime_sieve 10 = Inr [2, 3, 5, 7] \<and> sorted_wrt (<) [2, 3, 5, 7 :: int] \<and>
   set [2, 3, 5, 7] = {p. is_prime p \<and> p \<le> 10}"
proof -
  have h: "(2::int) \<le> 10" by simp
  from prime_sieve_correct [OF h] obtain ps where
    "prime_sieve 10 = Inr ps" "sorted_wrt (<) ps" "set ps = {p. is_prime p \<and> p \<le> 10}"
    "prime_sieve 10 = Inr [2, 3, 5, 7]" by blast
  then show ?thesis by simp
qed

section \<open>The timing helper of \<open>python/5_io_bound_example.py\<close>\<close>

text \<open>
  \<^verbatim>\<open>
  class IOProfiler:
      def __init__(self):
          self.temp_dir = tempfile.mkdtemp(prefix="nsys_io_test_")
          self.results = {}

      def measure(self, name: str, func, *args, **kwargs):
          start = time.time()
          result = func(*args, **kwargs)
          elapsed = time.time() - start
          self.results[name] = elapsed
          print(f"   {name}: {elapsed:.3f}s")
          return result
  \<close>
  The state is the dictionary \<open>results\<close>, the clock that \<open>time.time()\<close> reads (\<open>now\<close>)
  and the lines printed, each kept as the name and the elapsed time it shows. The call
  \<open>func(*args, **kwargs)\<close> is a function of the state: it returns a value or raises, and
  it can change the state (time passes, and a function that holds the profiler can write
  to \<open>results\<close>).
\<close>

record profiler =
  results :: "string \<rightharpoonup> real"
  now :: real
  printed :: "(string \<times> real) list"

definition measure_py ::
  "profiler \<Rightarrow> string \<Rightarrow> (profiler \<Rightarrow> ('e + 'r) \<times> profiler) \<Rightarrow> ('e + 'r) \<times> profiler" where
  "measure_py self name func =
     (let start = now self in
      case func self of
        (Inl exn, self1) \<Rightarrow> (Inl exn, self1)
      | (Inr result, self1) \<Rightarrow>
          (let elapsed = now self1 - start;
               self2 = self1\<lparr>results := (results self1)(name \<mapsto> elapsed)\<rparr>;
               self3 = self2\<lparr>printed := printed self2 @ [(name, elapsed)]\<rparr>
           in (Inr result, self3)))"

text \<open>
  Claim C7. \<open>IOProfiler.measure(name, func, *args, **kwargs)\<close> returns exactly the
  value \<open>func(*args, **kwargs)\<close> returns, and afterwards \<open>results[name]\<close> is the
  elapsed time while every other entry of \<open>results\<close> is as \<open>func\<close> left it; if \<open>func\<close>
  raises, the exception propagates and \<open>measure\<close> adds no entry to \<open>results\<close>.
\<close>

theorem measure_returns_and_records:
  "(func self = (Inr v, self1) \<longrightarrow>
      fst (measure_py self name func) = Inr v \<and>
      results (snd (measure_py self name func)) name = Some (now self1 - now self) \<and>
      (\<forall>k. k \<noteq> name \<longrightarrow> results (snd (measure_py self name func)) k = results self1 k)) \<and>
   (func self = (Inl exn, self1) \<longrightarrow>
      fst (measure_py self name func) = Inl exn \<and>
      results (snd (measure_py self name func)) = results self1)"
  by (simp add: measure_py_def Let_def)

text \<open>A profiler with one earlier entry, a function that returns and one that raises.\<close>

definition sample_profiler :: profiler where
  "sample_profiler = \<lparr>results = Map.empty(''old'' \<mapsto> 1), now = 10, printed = []\<rparr>"

definition sample_ok :: "profiler \<Rightarrow> (py_error + int) \<times> profiler" where
  "sample_ok p = (Inr 42, p\<lparr>now := now p + 2\<rparr>)"

definition sample_raise :: "profiler \<Rightarrow> (py_error + int) \<times> profiler" where
  "sample_raise p = (Inl OSError, p\<lparr>now := now p + 3\<rparr>)"

theorem measure_returns_and_records_witness:
  "sample_ok sample_profiler = (Inr 42, sample_profiler\<lparr>now := 12\<rparr>) \<and>
   fst (measure_py sample_profiler ''job'' sample_ok) = Inr 42 \<and>
   results (snd (measure_py sample_profiler ''job'' sample_ok)) ''job'' = Some 2 \<and>
   results (snd (measure_py sample_profiler ''job'' sample_ok)) ''old'' = Some 1 \<and>
   sample_raise sample_profiler = (Inl OSError, sample_profiler\<lparr>now := 13\<rparr>) \<and>
   fst (measure_py sample_profiler ''job'' sample_raise) = Inl OSError \<and>
   results (snd (measure_py sample_profiler ''job'' sample_raise)) ''job'' = None"
proof -
  have ok: "sample_ok sample_profiler = (Inr 42, sample_profiler\<lparr>now := 12\<rparr>)"
    by (simp add: sample_ok_def sample_profiler_def)
  have bad: "sample_raise sample_profiler = (Inl OSError, sample_profiler\<lparr>now := 13\<rparr>)"
    by (simp add: sample_raise_def sample_profiler_def)
  have old: "''old'' \<noteq> ''job''" by simp
  from measure_returns_and_records
    [of sample_ok sample_profiler 42 "sample_profiler\<lparr>now := 12\<rparr>" "''job''" OSError]
    measure_returns_and_records
    [of sample_raise sample_profiler 0 "sample_profiler\<lparr>now := 13\<rparr>" "''job''" OSError]
    ok bad old
  show ?thesis by (simp add: sample_profiler_def)
qed

section \<open>The stand-in for nvtx of \<open>python/4_nvtx_annotations.py\<close>\<close>

text \<open>
  \<^verbatim>\<open>
  class DummyNVTX:
      @staticmethod
      def annotate(message=None, color=None, domain=None):
          def decorator(func):
              return func
          if callable(message):
              return message
          return decorator

      @staticmethod
      def push_range(message, color=None, domain=None):
          pass

      @staticmethod
      def pop_range():
          pass

  nvtx = DummyNVTX()
  \<close>
  The Python values that reach \<open>annotate\<close>: \<open>None\<close>, a string, a function (\<open>PyFunction\<close>),
  the inner function \<open>decorator\<close> that \<open>annotate\<close> returns (\<open>Decorator\<close>), and an object
  whose type has \<open>__enter__\<close> and \<open>__exit__\<close> (\<open>ContextManager\<close>, which the stand-in never
  builds). \<open>call_py\<close> is the call \<open>v(arg)\<close>, with the behaviour of user functions as a
  parameter. \<open>with_py\<close> is the \<open>with\<close> statement: it raises \<open>TypeError\<close>
  (\<open>AttributeError\<close> before Python 3.11) when the type of its subject has no
  \<open>__enter__\<close> or \<open>__exit__\<close>, as is the case for functions, strings and \<open>None\<close>.
\<close>

datatype 'f pyval = PyNone | PyStr string | PyFunction 'f | Decorator | ContextManager

definition callable :: "'f pyval \<Rightarrow> bool" where
  "callable v = (case v of PyFunction f \<Rightarrow> True | Decorator \<Rightarrow> True | _ \<Rightarrow> False)"

definition annotate :: "'f pyval \<Rightarrow> 'f pyval \<Rightarrow> 'f pyval \<Rightarrow> 'f pyval" where
  "annotate message color domain = (if callable message then message else Decorator)"

definition push_range :: "'f pyval \<Rightarrow> 'f pyval \<Rightarrow> 'f pyval \<Rightarrow> 's \<Rightarrow> 'f pyval \<times> 's" where
  "push_range message color domain world = (PyNone, world)"

definition pop_range :: "'s \<Rightarrow> 'f pyval \<times> 's" where
  "pop_range world = (PyNone, world)"

definition call_py ::
  "('f \<Rightarrow> 'f pyval \<Rightarrow> py_error + 'f pyval) \<Rightarrow> 'f pyval \<Rightarrow> 'f pyval \<Rightarrow> py_error + 'f pyval" where
  "call_py app v arg =
     (case v of Decorator \<Rightarrow> Inr arg | PyFunction g \<Rightarrow> app g arg | _ \<Rightarrow> Inl TypeError)"

definition with_py :: "'f pyval \<Rightarrow> (unit \<Rightarrow> py_error + 'r) \<Rightarrow> py_error + 'r" where
  "with_py cm body = (case cm of ContextManager \<Rightarrow> body () | _ \<Rightarrow> Inl TypeError)"

text \<open>
  \<^verbatim>\<open>
  @nvtx.annotate("Pipeline.transform", color="green")
  def transform_batch(self, data: np.ndarray) -> np.ndarray:
      with nvtx.annotate("FFT", color="yellow"):
          fft_data = np.fft.fft(data, axis=1)
      with nvtx.annotate("Filter", color="blue"):
          filtered = np.real(fft_data) * 0.5
      with nvtx.annotate("Inverse_FFT", color="cyan"):
          result = np.fft.ifft(filtered, axis=1).real
      return result
  \<close>
  The three numpy computations are parameters; \<open>transform_batch_plain\<close> is the method
  without its annotations.
\<close>

definition transform_batch ::
  "('f pyval \<Rightarrow> 'f pyval \<Rightarrow> 'f pyval \<Rightarrow> 'f pyval) \<Rightarrow>
   ('a \<Rightarrow> 'a) \<Rightarrow> ('a \<Rightarrow> 'a) \<Rightarrow> ('a \<Rightarrow> 'a) \<Rightarrow> 'a \<Rightarrow> py_error + 'a" where
  "transform_batch nvtx_annotate fft real_half ifft_real data =
     bind_py (with_py (nvtx_annotate (PyStr ''FFT'') (PyStr ''yellow'') PyNone)
                (\<lambda>_. Inr (fft data))) (\<lambda>fft_data.
     bind_py (with_py (nvtx_annotate (PyStr ''Filter'') (PyStr ''blue'') PyNone)
                (\<lambda>_. Inr (real_half fft_data))) (\<lambda>filtered.
     bind_py (with_py (nvtx_annotate (PyStr ''Inverse_FFT'') (PyStr ''cyan'') PyNone)
                (\<lambda>_. Inr (ifft_real filtered))) (\<lambda>result.
     Inr result)))"

definition transform_batch_plain :: "('a \<Rightarrow> 'a) \<Rightarrow> ('a \<Rightarrow> 'a) \<Rightarrow> ('a \<Rightarrow> 'a) \<Rightarrow> 'a \<Rightarrow> py_error + 'a" where
  "transform_batch_plain fft real_half ifft_real data = Inr (ifft_real (real_half (fft data)))"

lemma annotate_bare: "annotate (PyFunction f) PyNone PyNone = PyFunction f"
  by (simp add: annotate_def callable_def)

lemma annotate_parameterised:
  "call_py app (annotate (PyStr m) color domain) (PyFunction f) = Inr (PyFunction f)"
  by (simp add: annotate_def callable_def call_py_def)

lemma annotate_as_context_manager:
  "with_py (annotate (PyStr m) color domain) body = Inl TypeError"
  by (simp add: annotate_def callable_def with_py_def)

text \<open>
  Claim C5 says that with the stand-in every use of \<open>nvtx\<close> in the examples is a no-op
  that leaves results unchanged and never raises, also \<open>annotate\<close> in a \<open>with\<close>
  statement. The code does not do that: with the stand-in, \<open>transform_batch\<close> raises
  at its first \<open>with\<close> statement for every input, while the method without annotations
  returns the inverse transform of the filtered transform.
\<close>

theorem transform_batch_dummy_raises:
  "transform_batch annotate fft real_half ifft_real data = Inl TypeError \<and>
   transform_batch_plain fft real_half ifft_real data = Inr (ifft_real (real_half (fft data)))"
  by (simp add: transform_batch_def transform_batch_plain_def annotate_as_context_manager)

section \<open>Python strings and numbers\<close>

text \<open>
  The two scripts scrape text with string methods, regular expressions and the
  built-ins \<open>float()\<close> and \<open>int()\<close>. This section models those library operations. A
  character is a code point below 256, so the text that is modelled is Latin-1 text.
  \<open>is_space\<close> is the whitespace of \<open>str.strip()\<close>, \<open>str.split()\<close> and of \<open>\s\<close> in a
  regular expression (codes 9 to 13, 28 to 31, 32, 133 and 160); \<open>is_c_space\<close> is the
  whitespace that \<open>float()\<close> and \<open>int()\<close> skip around their argument (codes 9 to 13 and
  32, and the two whitespace characters above 127, which these functions first turn
  into spaces); \<open>is_digit\<close> is \<open>\d\<close>.
  \<^item> \<open>strip s\<close> is \<open>s.strip()\<close>, \<open>strip_chars cs s\<close> is \<open>s.strip(cs)\<close>;
  \<^item> \<open>contains sub s\<close> is \<open>sub in s\<close>;
  \<^item> \<open>split_sep sep s\<close> is \<open>s.split(sep)\<close> for a non-empty \<open>sep\<close>: it cuts at the
    occurrences of \<open>sep\<close> from the left, and the result has one more element than there
    are cuts;
  \<^item> \<open>split_ws s\<close> is \<open>s.split()\<close>: the maximal runs without whitespace;
  \<^item> \<open>join sep xs\<close> is \<open>sep.join(xs)\<close>.
\<close>

definition is_space :: "char \<Rightarrow> bool" where
  "is_space c = (of_char c \<in> set [9, 10, 11, 12, 13, 28, 29, 30, 31, 32, 133, 160 :: nat])"

definition is_c_space :: "char \<Rightarrow> bool" where
  "is_c_space c = (of_char c \<in> set [9, 10, 11, 12, 13, 32, 133, 160 :: nat])"

definition is_digit :: "char \<Rightarrow> bool" where
  "is_digit c = (c \<in> set ''0123456789'')"

definition strip_with :: "(char \<Rightarrow> bool) \<Rightarrow> string \<Rightarrow> string" where
  "strip_with p s = rev (dropWhile p (rev (dropWhile p s)))"

definition strip :: "string \<Rightarrow> string" where
  "strip s = strip_with is_space s"

definition strip_chars :: "string \<Rightarrow> string \<Rightarrow> string" where
  "strip_chars chars s = strip_with (\<lambda>c. c \<in> set chars) s"

fun starts_with :: "string \<Rightarrow> string \<Rightarrow> bool" where
  "starts_with [] s = True"
| "starts_with (p # ps) [] = False"
| "starts_with (p # ps) (c # cs) = (p = c \<and> starts_with ps cs)"

fun contains :: "string \<Rightarrow> string \<Rightarrow> bool" where
  "contains sub [] = (sub = [])"
| "contains sub (c # cs) = (starts_with sub (c # cs) \<or> contains sub cs)"

fun split_from :: "string \<Rightarrow> nat \<Rightarrow> string \<Rightarrow> string \<Rightarrow> string list" where
  "split_from sep skip piece [] = [rev piece]"
| "split_from sep (Suc skip) piece (c # cs) = split_from sep skip piece cs"
| "split_from sep 0 piece (c # cs) =
     (if starts_with sep (c # cs) then rev piece # split_from sep (length sep - 1) [] cs
      else split_from sep 0 (c # piece) cs)"

definition split_sep :: "string \<Rightarrow> string \<Rightarrow> string list" where
  "split_sep sep s = split_from sep 0 [] s"

fun split_ws_from :: "string \<Rightarrow> string \<Rightarrow> string list" where
  "split_ws_from piece [] = (if piece = [] then [] else [rev piece])"
| "split_ws_from piece (c # cs) =
     (if is_space c then (if piece = [] then split_ws_from [] cs
                          else rev piece # split_ws_from [] cs)
      else split_ws_from (c # piece) cs)"

definition split_ws :: "string \<Rightarrow> string list" where
  "split_ws s = split_ws_from [] s"

fun join :: "string \<Rightarrow> string list \<Rightarrow> string" where
  "join sep [] = []"
| "join sep [x] = x"
| "join sep (x # y # ys) = x @ sep @ join sep (y # ys)"

text \<open>
  A Python float is an IEEE 754 double: a finite double is kept as the real number it
  denotes (the two zeros are not told apart), next to the two infinities and NaN.
  \<open>round_double v\<close> is the double nearest to the real \<open>v\<close>, ties going to the even
  significand. With \<open>x\<close> the magnitude in units of \<open>2^-1074\<close>, the smallest positive
  double, the doubles around \<open>x\<close> are the multiples of \<open>2^s\<close>, where \<open>s\<close> is the number
  of bits of \<open>x\<close> above 53; a magnitude that rounds to \<open>2^1024\<close> or more overflows to an
  infinity, and one that rounds to no unit underflows to zero.

  \<open>py_float s\<close> is \<open>float(s)\<close> and \<open>py_int s\<close> is \<open>int(s)\<close>, with \<open>None\<close> for
  \<open>ValueError\<close>. Both skip surrounding whitespace and accept a sign; digits may be
  grouped by single underscores (\<open>digits_us\<close>). \<open>int\<close> refuses more than 4300 digits
  (the default of \<open>sys.set_int_max_str_digits\<close>, which the two scripts do not change).
  \<open>float\<close> also accepts a fraction, an exponent, and the words \<open>inf\<close>, \<open>infinity\<close> and
  \<open>nan\<close> in any case; it rounds the decimal value to the nearest double.
\<close>

datatype pyfloat = Fin real | PosInf | NegInf | NaN

definition round_even :: "real \<Rightarrow> int" where
  "round_even x =
     (let f = \<lfloor>x\<rfloor>; d = x - of_int f
      in if d < 1 / 2 then f else if 1 / 2 < d then f + 1 else if even f then f else f + 1)"

definition round_double :: "real \<Rightarrow> pyfloat" where
  "round_double v =
     (let x = \<bar>v\<bar> * 2 ^ 1074;
          s = nat (bitlen \<lfloor>x\<rfloor> - 53);
          r = of_int (round_even (x / 2 ^ s)) * 2 ^ s / 2 ^ 1074
      in if 2 ^ 1024 \<le> r then (if v < 0 then NegInf else PosInf)
         else Fin (if v < 0 then - r else r))"

fun digits_us :: "string \<Rightarrow> bool" where
  "digits_us [] = False"
| "digits_us [c] = is_digit c"
| "digits_us (c # d # cs) =
     (is_digit c \<and> (if d = CHR ''_'' then digits_us cs else digits_us (d # cs)))"

definition digits_value :: "string \<Rightarrow> nat" where
  "digits_value ds = foldl (\<lambda>n c. 10 * n + (of_char c - 48)) 0 (filter is_digit ds)"

definition split_sign :: "string \<Rightarrow> bool \<times> string" where
  "split_sign s =
     (case s of [] \<Rightarrow> (False, [])
      | c # cs \<Rightarrow> if c = CHR ''-'' then (True, cs) else if c = CHR ''+'' then (False, cs)
                   else (False, s))"

definition py_int :: "string \<Rightarrow> int option" where
  "py_int s =
     (case split_sign (strip_with is_c_space s) of (neg, ds) \<Rightarrow>
        if digits_us ds \<and> length (filter is_digit ds) \<le> 4300
        then Some ((if neg then - 1 else 1) * int (digits_value ds)) else None)"

definition lower_char :: "char \<Rightarrow> char" where
  "lower_char c =
     (if 65 \<le> (of_char c :: nat) \<and> (of_char c :: nat) \<le> 90
      then char_of (of_char c + 32 :: nat) else c)"

definition lower :: "string \<Rightarrow> string" where
  "lower s = map lower_char s"

definition is_exp_mark :: "char \<Rightarrow> bool" where
  "is_exp_mark c = (c = CHR ''e'' \<or> c = CHR ''E'')"

definition scale10 :: "nat \<Rightarrow> int \<Rightarrow> real" where
  "scale10 m e = (if 0 \<le> e then real m * 10 ^ nat e else real m / 10 ^ nat (- e))"

definition py_decimal :: "string \<Rightarrow> real option" where
  "py_decimal s =
     (let mant = takeWhile (\<lambda>c. \<not> is_exp_mark c) s;
          etail = dropWhile (\<lambda>c. \<not> is_exp_mark c) s;
          ip = takeWhile (\<lambda>c. c \<noteq> CHR ''.'') mant;
          dtail = dropWhile (\<lambda>c. c \<noteq> CHR ''.'') mant;
          fp = drop 1 dtail;
          mant_ok = (if dtail = [] then digits_us ip
                     else (ip = [] \<or> digits_us ip) \<and> (fp = [] \<or> digits_us fp) \<and>
                          \<not> (ip = [] \<and> fp = []));
          ex = (if etail = [] then Some 0
                else case split_sign (drop 1 etail) of (neg, ds) \<Rightarrow>
                  if digits_us ds then Some ((if neg then - 1 else 1) * int (digits_value ds))
                  else None)
      in case ex of
           None \<Rightarrow> None
         | Some e \<Rightarrow>
             if mant_ok
             then Some (scale10 (digits_value (ip @ fp)) (e - int (length (filter is_digit fp))))
             else None)"

definition py_float :: "string \<Rightarrow> pyfloat option" where
  "py_float s =
     (case split_sign (strip_with is_c_space s) of (neg, body) \<Rightarrow>
        if lower body = ''inf'' \<or> lower body = ''infinity''
        then Some (if neg then NegInf else PosInf)
        else if lower body = ''nan'' then Some NaN
        else case py_decimal body of
               None \<Rightarrow> None
             | Some v \<Rightarrow> Some (round_double (if neg then - v else v)))"

section \<open>Parsing and comparing statistics: \<open>scripts/compare_results.py\<close>\<close>

text \<open>
  \<open>truthy d\<close> is the truth value that \<open>if d\<close> gives a duration (\<open>None\<close> and zero are
  false); \<open>truediv\<close> is the operator \<open>/\<close> on two durations: it raises \<open>TypeError\<close> on
  \<open>None\<close> and \<open>ZeroDivisionError\<close> on a zero divisor, and rounds the quotient of two
  finite floats to the nearest double.
\<close>

definition truthy :: "pyfloat option \<Rightarrow> bool" where
  "truthy d = (case d of None \<Rightarrow> False | Some (Fin x) \<Rightarrow> x \<noteq> 0 | Some _ \<Rightarrow> True)"

fun float_div :: "pyfloat \<Rightarrow> pyfloat \<Rightarrow> py_error + pyfloat" where
  "float_div a (Fin y) =
     (if y = 0 then Inl ZeroDivisionError
      else case a of
             Fin x \<Rightarrow> Inr (round_double (x / y))
           | PosInf \<Rightarrow> Inr (if 0 < y then PosInf else NegInf)
           | NegInf \<Rightarrow> Inr (if 0 < y then NegInf else PosInf)
           | NaN \<Rightarrow> Inr NaN)"
| "float_div (Fin x) PosInf = Inr (Fin 0)"
| "float_div (Fin x) NegInf = Inr (Fin 0)"
| "float_div a b = Inr NaN"

definition truediv :: "pyfloat option \<Rightarrow> pyfloat option \<Rightarrow> py_error + pyfloat" where
  "truediv a b =
     (case a of None \<Rightarrow> Inl TypeError
      | Some x \<Rightarrow> (case b of None \<Rightarrow> Inl TypeError | Some y \<Rightarrow> float_div x y))"

text \<open>
  \<^verbatim>\<open>
  def parse_stats_file(filepath: Path) -> Dict[str, any]:
      stats = {'duration': None, 'cpu_samples': 0, 'context_switches': 0,
               'top_functions': [], 'os_runtime_events': 0, 'nvtx_events': 0}
      if not filepath.exists():
          return stats
      with open(filepath, 'r') as f:
          content = f.read()
      duration_match = re.search(r'Duration:\s*([\d.]+)\s*seconds', content)
      if duration_match:
          stats['duration'] = float(duration_match.group(1))
      samples_match = re.search(r'Total samples:\s*(\d+)', content)
      if samples_match:
          stats['cpu_samples'] = int(samples_match.group(1))
      ctx_match = re.search(r'Context switches:\s*(\d+)', content)
      if ctx_match:
          stats['context_switches'] = int(ctx_match.group(1))
      if 'Top Functions' in content:
          func_section = content.split('Top Functions')[1].split('\n\n')[0]
          for line in func_section.split('\n')[2:]:
              if line.strip() and '%' in line:
                  parts = line.split()
                  if len(parts) >= 2:
                      try:
                          percentage = float(parts[0].strip('%'))
                          function = ' '.join(parts[1:])
                          stats['top_functions'].append((function, percentage))
                      except ValueError:
                          pass
      return stats
  \<close>
  The dictionary has a fixed set of keys and is a record. The file system maps a path
  to nothing (the file does not exist), to the text that \<open>f.read()\<close> returns, to an
  entry that exists and cannot be opened (\<open>open\<close> raises an \<open>OSError\<close>), or to a file
  whose bytes are not text in the encoding (\<open>f.read()\<close> raises \<open>UnicodeDecodeError\<close>).

  \<open>match_duration s\<close> is the match of the first pattern at the start of \<open>s\<close>, with the
  text of its group. The three parts of the pattern after \<open>Duration:\<close> take characters
  from disjoint classes, so a match exists iff the greedy one does: skip all whitespace,
  take all digits and dots (at least one), skip all whitespace, and find \<open>seconds\<close>.
  \<open>match_count\<close> does the same for the two counting patterns. \<open>re_search\<close> is
  \<open>re.search\<close>: the match at the leftmost position that has one.
\<close>

record stats =
  duration :: "pyfloat option"
  cpu_samples :: int
  context_switches :: int
  top_functions :: "(string \<times> pyfloat) list"
  os_runtime_events :: int
  nvtx_events :: int

datatype file_entry = Text string | Unreadable | Undecodable

type_synonym filesystem = "string \<rightharpoonup> file_entry"

definition is_num_char :: "char \<Rightarrow> bool" where
  "is_num_char c = (is_digit c \<or> c = CHR ''.'')"

definition match_duration :: "string \<Rightarrow> string option" where
  "match_duration s =
     (if starts_with ''Duration:'' s
      then (let r = dropWhile is_space (drop (length ''Duration:'') s);
                g = takeWhile is_num_char r;
                r' = dropWhile is_space (dropWhile is_num_char r)
            in if g \<noteq> [] \<and> starts_with ''seconds'' r' then Some g else None)
      else None)"

definition match_count :: "string \<Rightarrow> string \<Rightarrow> string option" where
  "match_count label s =
     (if starts_with label s
      then (let g = takeWhile is_digit (dropWhile is_space (drop (length label) s))
            in if g \<noteq> [] then Some g else None)
      else None)"

fun re_search :: "(string \<Rightarrow> string option) \<Rightarrow> string \<Rightarrow> string option" where
  "re_search m [] = m []"
| "re_search m (c # cs) =
     (case m (c # cs) of Some g \<Rightarrow> Some g | None \<Rightarrow> re_search m cs)"

definition top_function_line :: "stats \<Rightarrow> string \<Rightarrow> stats" where
  "top_function_line st line =
     (if strip line \<noteq> [] \<and> contains ''%'' line
      then (let parts = split_ws line
            in if length parts \<ge> 2
               then (case py_float (strip_chars ''%'' (parts ! 0)) of
                       None \<Rightarrow> st
                     | Some percentage \<Rightarrow>
                         st\<lparr>top_functions :=
                              top_functions st @ [(join '' '' (drop 1 parts), percentage)]\<rparr>)
               else st)
      else st)"

definition initial_stats :: stats where
  "initial_stats = \<lparr>duration = None, cpu_samples = 0, context_switches = 0,
     top_functions = [], os_runtime_events = 0, nvtx_events = 0\<rparr>"

definition parse_content :: "string \<Rightarrow> py_error + stats" where
  "parse_content content =
     bind_py (case re_search match_duration content of
                None \<Rightarrow> Inr initial_stats
              | Some g \<Rightarrow> (case py_float g of
                            None \<Rightarrow> Inl ValueError
                          | Some v \<Rightarrow> Inr (initial_stats\<lparr>duration := Some v\<rparr>))) (\<lambda>st.
     bind_py (case re_search (match_count ''Total samples:'') content of
                None \<Rightarrow> Inr st
              | Some g \<Rightarrow> (case py_int g of
                            None \<Rightarrow> Inl ValueError
                          | Some n \<Rightarrow> Inr (st\<lparr>cpu_samples := n\<rparr>))) (\<lambda>st.
     bind_py (case re_search (match_count ''Context switches:'') content of
                None \<Rightarrow> Inr st
              | Some g \<Rightarrow> (case py_int g of
                            None \<Rightarrow> Inl ValueError
                          | Some n \<Rightarrow> Inr (st\<lparr>context_switches := n\<rparr>))) (\<lambda>st.
     if contains ''Top Functions'' content
     then bind_py (nth_py (split_sep ''Top Functions'' content) 1) (\<lambda>after.
          bind_py (nth_py (split_sep [CHR 0x0A, CHR 0x0A] after) 0) (\<lambda>func_section.
          Inr (foldl top_function_line st (drop 2 (split_sep [CHR 0x0A] func_section)))))
     else Inr st)))"

definition parse_stats_file :: "filesystem \<Rightarrow> string \<Rightarrow> py_error + stats" where
  "parse_stats_file fs filepath =
     (case fs filepath of
        None \<Rightarrow> Inr initial_stats
      | Some Unreadable \<Rightarrow> Inl OSError
      | Some Undecodable \<Rightarrow> Inl UnicodeDecodeError
      | Some (Text content) \<Rightarrow> parse_content content)"

text \<open>
  \<^verbatim>\<open>
  def compare_implementations(results_dir: Path) -> Dict[str, Dict]:
      comparisons = {}
      example_pairs = [
          ('py_1_basic_cpu', 'cpp_1_basic_cpu', 'Basic CPU Profiling'),
          ('py_2_matrix_ops', 'cpp_2_matrix_ops', 'Matrix Operations'),
          ('py_3_multiprocessing', 'cpp_3_multithreading', 'Parallel Processing'),
          ('py_4_nvtx', 'cpp_4_nvtx', 'NVTX Annotations'),
          ('py_5_io_bound', 'cpp_5_memory', 'Memory/IO Intensive')
      ]
      for py_name, cpp_name, display_name in example_pairs:
          py_stats = parse_stats_file(results_dir / f"{py_name}_stats.txt")
          cpp_stats = parse_stats_file(results_dir / f"{cpp_name}_stats.txt")
          if py_stats['duration'] and cpp_stats['duration']:
              comparisons[display_name] = {
                  'python': py_stats,
                  'cpp': cpp_stats,
                  'speedup': py_stats['duration'] / cpp_stats['duration']
              }
      return comparisons
  \<close>
  \<open>comparisons\<close> is a map from display names to entries; \<open>compare_pair\<close> is the body
  of the loop and \<open>compare_loop\<close> the loop, which stops at the first exception.
\<close>

record comparison =
  python :: stats
  cpp :: stats
  speedup :: pyfloat

definition example_pairs :: "(string \<times> string \<times> string) list" where
  "example_pairs =
     [(''py_1_basic_cpu'', ''cpp_1_basic_cpu'', ''Basic CPU Profiling''),
      (''py_2_matrix_ops'', ''cpp_2_matrix_ops'', ''Matrix Operations''),
      (''py_3_multiprocessing'', ''cpp_3_multithreading'', ''Parallel Processing''),
      (''py_4_nvtx'', ''cpp_4_nvtx'', ''NVTX Annotations''),
      (''py_5_io_bound'', ''cpp_5_memory'', ''Memory/IO Intensive'')]"

definition stats_path :: "string \<Rightarrow> string \<Rightarrow> string" where
  "stats_path results_dir name = results_dir @ ''/'' @ name @ ''_stats.txt''"

definition compare_pair ::
  "filesystem \<Rightarrow> string \<Rightarrow> (string \<rightharpoonup> comparison) \<Rightarrow> string \<times> string \<times> string \<Rightarrow>
   py_error + (string \<rightharpoonup> comparison)" where
  "compare_pair fs results_dir comparisons pair =
     (case pair of (py_name, cpp_name, display_name) \<Rightarrow>
        bind_py (parse_stats_file fs (stats_path results_dir py_name)) (\<lambda>py_stats.
        bind_py (parse_stats_file fs (stats_path results_dir cpp_name)) (\<lambda>cpp_stats.
        if truthy (duration py_stats) \<and> truthy (duration cpp_stats)
        then bind_py (truediv (duration py_stats) (duration cpp_stats)) (\<lambda>ratio.
               Inr (comparisons(display_name \<mapsto>
                      \<lparr>python = py_stats, cpp = cpp_stats, speedup = ratio\<rparr>)))
        else Inr comparisons)))"

fun compare_loop ::
  "filesystem \<Rightarrow> string \<Rightarrow> (string \<times> string \<times> string) list \<Rightarrow> (string \<rightharpoonup> comparison) \<Rightarrow>
   py_error + (string \<rightharpoonup> comparison)" where
  "compare_loop fs results_dir [] comparisons = Inr comparisons"
| "compare_loop fs results_dir (pair # pairs) comparisons =
     (case compare_pair fs results_dir comparisons pair of
        Inl e \<Rightarrow> Inl e
      | Inr comparisons' \<Rightarrow> compare_loop fs results_dir pairs comparisons')"

definition compare_implementations :: "filesystem \<Rightarrow> string \<Rightarrow> py_error + (string \<rightharpoonup> comparison)" where
  "compare_implementations fs results_dir = compare_loop fs results_dir example_pairs Map.empty"

lemma duration_top_function_line [simp]: "duration (top_function_line st line) = duration st"
  by (simp add: top_function_line_def Let_def split: option.splits)

lemma duration_top_functions [simp]:
  "duration (foldl top_function_line st ls) = duration st"
  by (induction ls arbitrary: st) simp_all

lemma parse_content_duration:
  assumes "parse_content content = Inr st"
  shows "duration st =
         (case re_search match_duration content of None \<Rightarrow> None | Some g \<Rightarrow> py_float g)"
  using assms unfolding parse_content_def bind_py_def initial_stats_def
  by (auto split: option.splits sum.splits if_splits)

lemma parse_stats_file_missing:
  "fs filepath = None \<Longrightarrow> parse_stats_file fs filepath = Inr initial_stats"
  by (simp add: parse_stats_file_def)

lemma top_function_line_fields [simp]:
  "cpu_samples (top_function_line st line) = cpu_samples st"
  "context_switches (top_function_line st line) = context_switches st"
  "os_runtime_events (top_function_line st line) = os_runtime_events st"
  "nvtx_events (top_function_line st line) = nvtx_events st"
  by (simp_all add: top_function_line_def Let_def split: option.splits)

lemma top_functions_fields [simp]:
  "cpu_samples (foldl top_function_line st ls) = cpu_samples st"
  "context_switches (foldl top_function_line st ls) = context_switches st"
  "os_runtime_events (foldl top_function_line st ls) = os_runtime_events st"
  "nvtx_events (foldl top_function_line st ls) = nvtx_events st"
  by (induction ls arbitrary: st) simp_all

lemma parse_content_defaults:
  assumes "parse_content content = Inr st"
  shows "(re_search match_duration content = None \<longrightarrow> duration st = None) \<and>
         (re_search (match_count ''Total samples:'') content = None \<longrightarrow> cpu_samples st = 0) \<and>
         (re_search (match_count ''Context switches:'') content = None \<longrightarrow>
            context_switches st = 0) \<and>
         (\<not> contains ''Top Functions'' content \<longrightarrow> top_functions st = []) \<and>
         os_runtime_events st = 0 \<and> nvtx_events st = 0"
  using assms unfolding parse_content_def bind_py_def initial_stats_def
  by (auto split: option.splits sum.splits if_splits)

text \<open>
  A results directory whose first statistics file holds a duration with two dots: the
  pattern matches \<open>1.2.3\<close> and \<open>float\<close> rejects it.
\<close>

definition malformed_fs :: filesystem where
  "malformed_fs = Map.empty(''results/py_1_basic_cpu_stats.txt'' \<mapsto> Text ''Duration: 1.2.3 seconds'')"

lemma search_malformed: "re_search match_duration ''Duration: 1.2.3 seconds'' = Some ''1.2.3''"
  by code_simp

lemma float_malformed: "py_float ''1.2.3'' = None"
  by code_simp

text \<open>
  Claim C1 says that \<open>parse_stats_file\<close> returns a dictionary with the six keys, leaves
  a field at its initial value when the file is missing or the field's pattern does not
  match, and never raises. The six keys and the initial values hold (the record type,
  \<open>parse_stats_file_missing\<close>, \<open>parse_content_defaults\<close>), but the function raises:
  the call of \<open>float\<close> on the duration is not guarded, unlike the one on a percentage,
  and the pattern \<open>[\d.]+\<close> accepts text that \<open>float\<close> rejects.
\<close>

theorem parse_stats_file_raises:
  "parse_stats_file malformed_fs ''results/py_1_basic_cpu_stats.txt'' = Inl ValueError"
proof -
  have "parse_content ''Duration: 1.2.3 seconds'' = Inl ValueError"
    unfolding parse_content_def search_malformed by (simp add: float_malformed)
  then show ?thesis
    by (simp add: parse_stats_file_def malformed_fs_def)
qed

lemma truthy_iff: "truthy d \<longleftrightarrow> d \<noteq> None \<and> d \<noteq> Some (Fin 0)"
  by (auto simp: truthy_def split: option.splits pyfloat.splits)

lemma parse_content_errors:
  "parse_content content = Inl e \<Longrightarrow> e = ValueError \<or> e = IndexError"
  unfolding parse_content_def bind_py_def nth_py_def
  by (auto split: option.splits sum.splits if_splits)

lemma parse_stats_file_errors:
  "parse_stats_file fs filepath = Inl e \<Longrightarrow>
   e = ValueError \<or> e = IndexError \<or> e = OSError \<or> e = UnicodeDecodeError"
  unfolding parse_stats_file_def
  by (auto split: option.splits file_entry.splits dest: parse_content_errors)

text \<open>
  \<open>nonzero d\<close>: the duration is neither \<open>None\<close> nor zero. \<open>entry_outcome\<close> relates the
  entry of a display name before and after its pair is handled, and \<open>pair_outcome\<close>
  states it for the two statistics files of a pair.
\<close>

definition nonzero :: "pyfloat option \<Rightarrow> bool" where
  "nonzero d = (d \<noteq> None \<and> d \<noteq> Some (Fin 0))"

definition entry_outcome ::
  "stats \<Rightarrow> stats \<Rightarrow> comparison option \<Rightarrow> comparison option \<Rightarrow> bool" where
  "entry_outcome ps cs before after =
     (if nonzero (duration ps) \<and> nonzero (duration cs)
      then \<exists>ratio. truediv (duration ps) (duration cs) = Inr ratio \<and>
             after = Some \<lparr>python = ps, cpp = cs, speedup = ratio\<rparr>
      else after = before)"

definition pair_outcome ::
  "filesystem \<Rightarrow> string \<Rightarrow> (string \<rightharpoonup> comparison) \<Rightarrow> (string \<rightharpoonup> comparison) \<Rightarrow>
   string \<times> string \<times> string \<Rightarrow> bool" where
  "pair_outcome fs d c0 comps pair =
     (\<exists>ps cs. parse_stats_file fs (stats_path d (fst pair)) = Inr ps \<and>
              parse_stats_file fs (stats_path d (fst (snd pair))) = Inr cs \<and>
              entry_outcome ps cs (c0 (snd (snd pair))) (comps (snd (snd pair))))"

lemma pair_outcome_transfer:
  assumes "pair_outcome fs d c0 c1 pair"
    and "comps (snd (snd pair)) = c1 (snd (snd pair))"
    and "c0' (snd (snd pair)) = c0 (snd (snd pair))"
  shows "pair_outcome fs d c0' comps pair"
  using assms(1) unfolding pair_outcome_def assms(2) assms(3) .

lemma float_div_nonzero:
  "b \<noteq> Fin 0 \<Longrightarrow> \<exists>ratio. float_div a b = Inr ratio"
  by (cases a; cases b) simp_all

lemma truediv_nonzero:
  assumes "nonzero a" "nonzero b"
  shows "\<exists>ratio. truediv a b = Inr ratio"
proof -
  from assms obtain x y where "a = Some x" "b = Some y" "y \<noteq> Fin 0"
    by (auto simp: nonzero_def)
  then show ?thesis using float_div_nonzero [of y x] by (simp add: truediv_def)
qed

lemma compare_pair_ok:
  assumes "parse_stats_file fs (stats_path d py_name) = Inr ps"
    and "parse_stats_file fs (stats_path d cpp_name) = Inr cs"
  shows "\<exists>c1. compare_pair fs d c0 (py_name, cpp_name, display_name) = Inr c1 \<and>
              (\<forall>k. k \<noteq> display_name \<longrightarrow> c1 k = c0 k) \<and>
              entry_outcome ps cs (c0 display_name) (c1 display_name)"
proof (cases "truthy (duration ps) \<and> truthy (duration cs)")
  case False
  have "compare_pair fs d c0 (py_name, cpp_name, display_name) = Inr c0"
    using assms by (simp add: compare_pair_def if_not_P [OF False])
  moreover have nn: "\<not> (nonzero (duration ps) \<and> nonzero (duration cs))"
    using False unfolding nonzero_def truthy_iff .
  have "entry_outcome ps cs (c0 display_name) (c0 display_name)"
    unfolding entry_outcome_def if_not_P [OF nn] by (rule refl)
  ultimately show ?thesis by simp
next
  case True
  then have nz: "nonzero (duration ps) \<and> nonzero (duration cs)"
    by (simp add: truthy_iff nonzero_def)
  then obtain ratio where td: "truediv (duration ps) (duration cs) = Inr ratio"
    using truediv_nonzero by blast
  let ?c1 = "c0(display_name \<mapsto> \<lparr>python = ps, cpp = cs, speedup = ratio\<rparr>)"
  have "compare_pair fs d c0 (py_name, cpp_name, display_name) = Inr ?c1"
    using assms True by (simp add: compare_pair_def td)
  moreover have "entry_outcome ps cs (c0 display_name) (?c1 display_name)"
    unfolding entry_outcome_def if_P [OF nz] using td by simp
  ultimately show ?thesis by simp
qed

lemma compare_pair_error:
  assumes "compare_pair fs d c0 (py_name, cpp_name, display_name) = Inl e"
  shows "parse_stats_file fs (stats_path d py_name) = Inl e \<or>
         parse_stats_file fs (stats_path d cpp_name) = Inl e"
proof (cases "parse_stats_file fs (stats_path d py_name)")
  case (Inl e')
  with assms show ?thesis by (simp add: compare_pair_def)
next
  case (Inr ps)
  show ?thesis
  proof (cases "parse_stats_file fs (stats_path d cpp_name)")
    case (Inl e')
    with Inr assms show ?thesis by (simp add: compare_pair_def)
  next
    case cs: (Inr cs)
    from compare_pair_ok [OF Inr cs, of c0 display_name] assms show ?thesis by auto
  qed
qed


lemma compare_pair_step:
  assumes "compare_pair fs d c0 pair = Inr c1"
  shows "(\<forall>k. k \<noteq> snd (snd pair) \<longrightarrow> c1 k = c0 k) \<and> pair_outcome fs d c0 c1 pair"
proof -
  obtain py_name cpp_name display_name where p: "pair = (py_name, cpp_name, display_name)"
    by (cases pair) auto
  obtain ps where ps: "parse_stats_file fs (stats_path d py_name) = Inr ps"
    using assms unfolding p compare_pair_def
    by (cases "parse_stats_file fs (stats_path d py_name)") simp_all
  obtain cs where cs: "parse_stats_file fs (stats_path d cpp_name) = Inr cs"
    using assms ps unfolding p compare_pair_def
    by (cases "parse_stats_file fs (stats_path d cpp_name)") simp_all
  from compare_pair_ok [OF ps cs, of c0 display_name] assms
  have "\<forall>k. k \<noteq> display_name \<longrightarrow> c1 k = c0 k"
    "entry_outcome ps cs (c0 display_name) (c1 display_name)"
    unfolding p by auto
  with ps cs show ?thesis unfolding p pair_outcome_def by auto
qed

lemma compare_loop_errors:
  "compare_loop fs d pairs c0 = Inl e \<Longrightarrow>
   e = ValueError \<or> e = IndexError \<or> e = OSError \<or> e = UnicodeDecodeError"
proof (induction pairs arbitrary: c0)
  case Nil
  then show ?case by simp
next
  case (Cons pair pairs)
  obtain py_name cpp_name display_name where p: "pair = (py_name, cpp_name, display_name)"
    by (cases pair) auto
  show ?case
  proof (cases "compare_pair fs d c0 pair")
    case (Inl e')
    with Cons.prems have "e' = e" by simp
    with Inl p compare_pair_error [of fs d c0 py_name cpp_name display_name e]
    have "parse_stats_file fs (stats_path d py_name) = Inl e \<or>
          parse_stats_file fs (stats_path d cpp_name) = Inl e" by simp
    then show ?thesis using parse_stats_file_errors by blast
  next
    case (Inr c1)
    with Cons.prems have "compare_loop fs d pairs c1 = Inl e" by simp
    then show ?thesis by (rule Cons.IH)
  qed
qed


lemma compare_loop_outcome:
  assumes "distinct (map (\<lambda>pair. snd (snd pair)) pairs)"
    and "compare_loop fs d pairs c0 = Inr comps"
  shows "(\<forall>k. k \<notin> set (map (\<lambda>pair. snd (snd pair)) pairs) \<longrightarrow> comps k = c0 k) \<and>
         list_all (pair_outcome fs d c0 comps) pairs"
  using assms
proof (induction pairs arbitrary: c0)
  case Nil
  then show ?case by simp
next
  case (Cons pair pairs)
  let ?names = "set (map (\<lambda>pair. snd (snd pair)) pairs)"
  from Cons.prems(2) obtain c1 where c1: "compare_pair fs d c0 pair = Inr c1"
    "compare_loop fs d pairs c1 = Inr comps"
    by (cases "compare_pair fs d c0 pair") simp_all
  have fresh: "snd (snd pair) \<notin> ?names"
    and dist: "distinct (map (\<lambda>pair. snd (snd pair)) pairs)"
    using Cons.prems(1) by simp_all
  from Cons.IH [OF dist c1(2)]
  have rest: "\<And>k. k \<notin> ?names \<Longrightarrow> comps k = c1 k"
    "list_all (pair_outcome fs d c1 comps) pairs" by simp_all
  from compare_pair_step [OF c1(1)]
  have step: "\<And>k. k \<noteq> snd (snd pair) \<Longrightarrow> c1 k = c0 k" "pair_outcome fs d c0 c1 pair"
    by simp_all
  have "pair_outcome fs d c0 comps pair"
    using step(2) rest(1) [OF fresh] by (rule pair_outcome_transfer) (rule refl)
  moreover have "pair_outcome fs d c0 comps q" if q: "q \<in> set pairs" for q
  proof -
    from q have "snd (snd q) \<in> ?names" by simp
    with fresh have "snd (snd q) \<noteq> snd (snd pair)" by metis
    then have same: "c0 (snd (snd q)) = c1 (snd (snd q))" by (rule step(1) [symmetric])
    from rest(2) q have "pair_outcome fs d c1 comps q" unfolding list_all_iff by blast
    then show ?thesis using refl same by (rule pair_outcome_transfer)
  qed
  moreover have "comps k = c0 k"
    if "k \<notin> set (map (\<lambda>pair. snd (snd pair)) (pair # pairs))" for k
  proof -
    from that have k: "k \<notin> ?names" "k \<noteq> snd (snd pair)" by simp_all
    show ?thesis using rest(1) [OF k(1)] step(1) [OF k(2)] by (rule trans)
  qed
  ultimately show ?case unfolding list_all_iff by (simp del: set_map)
qed

lemma compare_loop_total:
  assumes "list_all (\<lambda>pair.
              (\<exists>ps. parse_stats_file fs (stats_path d (fst pair)) = Inr ps) \<and>
              (\<exists>cs. parse_stats_file fs (stats_path d (fst (snd pair))) = Inr cs)) pairs"
  shows "\<exists>comps. compare_loop fs d pairs c0 = Inr comps"
  using assms
proof (induction pairs arbitrary: c0)
  case Nil
  show ?case by simp
next
  case (Cons pair pairs)
  obtain py_name cpp_name display_name where p: "pair = (py_name, cpp_name, display_name)"
    by (cases pair) auto
  from Cons.prems p obtain ps cs where pc:
    "parse_stats_file fs (stats_path d py_name) = Inr ps"
    "parse_stats_file fs (stats_path d cpp_name) = Inr cs" by auto
  from compare_pair_ok [OF pc, of c0 display_name] obtain c1 where
    "compare_pair fs d c0 pair = Inr c1" using p by auto
  moreover have "\<exists>comps. compare_loop fs d pairs c1 = Inr comps"
    using Cons.prems by (intro Cons.IH) simp
  ultimately show ?case by simp
qed

lemma example_pairs_distinct: "distinct (map (\<lambda>pair. snd (snd pair)) example_pairs)"
  by (simp add: example_pairs_def)

text \<open>
  What the loop does when it returns: every pair is in the result exactly when both
  parsed durations are neither \<open>None\<close> nor zero, with their quotient as speedup. It
  returns when the ten files parse, and it never raises \<open>ZeroDivisionError\<close> or
  \<open>TypeError\<close>.
\<close>

lemma compare_implementations_result:
  assumes "compare_implementations fs d = Inr comps"
  shows "list_all (pair_outcome fs d Map.empty comps) example_pairs"
proof -
  from assms have "compare_loop fs d example_pairs Map.empty = Inr comps"
    by (simp add: compare_implementations_def)
  from compare_loop_outcome [OF example_pairs_distinct this] show ?thesis by simp
qed

lemma compare_implementations_returns:
  assumes "list_all (\<lambda>pair.
        (\<exists>ps. parse_stats_file fs (stats_path d (fst pair)) = Inr ps) \<and>
        (\<exists>cs. parse_stats_file fs (stats_path d (fst (snd pair))) = Inr cs)) example_pairs"
  shows "\<exists>comps. compare_implementations fs d = Inr comps"
  using assms unfolding compare_implementations_def by (rule compare_loop_total)

lemma compare_implementations_no_division_error:
  "compare_implementations fs d \<noteq> Inl ZeroDivisionError \<and>
   compare_implementations fs d \<noteq> Inl TypeError"
  using compare_loop_errors [of fs d example_pairs Map.empty ZeroDivisionError]
    compare_loop_errors [of fs d example_pairs Map.empty TypeError]
  by (auto simp: compare_implementations_def)

text \<open>Integers below \<open>2^53\<close> are doubles: rounding leaves them as they are.\<close>

lemma round_even_int: "round_even (of_int k) = k"
  by (simp add: round_even_def)

lemma round_double_small_int:
  fixes n :: int
  assumes "0 < n" "n < 2 ^ 53"
  shows "round_double (of_int n) = Fin (of_int n)"
proof -
  define b where "b = bitlen n"
  have b1: "1 \<le> b"
    using assms(1) by (simp add: b_def bitlen_alt_def)
  have b53: "b \<le> 53"
  proof (rule ccontr)
    assume "\<not> b \<le> 53"
    then have "53 \<le> nat (b - 1)" by simp
    then have "(2::int) ^ 53 \<le> 2 ^ nat (b - 1)" by (rule power_increasing) simp
    also have "\<dots> \<le> n" using bitlen_bounds [OF assms(1)] by (simp add: b_def)
    finally show False using assms(2) by simp
  qed
  define j where "j = nat (53 - b)"
  define s where "s = nat (b + 1021)"
  have sj: "1074 = s + j" using b1 b53 by (simp add: s_def j_def)
  have pw: "(2::real) ^ 1074 = 2 ^ s * 2 ^ j"
    unfolding sj by (rule power_add)
  let ?x = "\<bar>of_int n :: real\<bar> * 2 ^ 1074"
  have x: "?x = of_int (n * 2 ^ 1074)" using assms(1) by simp
  have fl: "\<lfloor>?x\<rfloor> = n * 2 ^ 1074" unfolding x by (rule floor_of_int)
  have bl: "bitlen (n * 2 ^ 1074) = b + 1074"
    unfolding b_def using bitlen_pow2 [OF assms(1), of 1074] by simp
  have s: "nat (bitlen \<lfloor>?x\<rfloor> - 53) = s"
    unfolding fl bl s_def by simp
  have q: "?x / 2 ^ s = of_int (n * 2 ^ j)"
  proof -
    have "?x = of_int n * (2 ^ s * 2 ^ j)" using assms(1) unfolding pw by simp
    then show ?thesis by simp
  qed
  have re: "round_even (?x / 2 ^ s) = n * 2 ^ j"
    by (simp only: q round_even_int)
  have "of_int (round_even (?x / 2 ^ s)) * 2 ^ s / 2 ^ 1074 =
        (of_int (n * 2 ^ j) :: real) * 2 ^ s / 2 ^ 1074"
    by (simp only: re)
  also have "\<dots> = of_int n" unfolding pw by simp
  finally have r: "of_int (round_even (?x / 2 ^ s)) * 2 ^ s / 2 ^ 1074 = (of_int n :: real)" .
  have small: "\<not> (2::real) ^ 1024 \<le> of_int n"
  proof -
    have "(of_int n :: real) < 2 ^ 53"
      using assms(2) by (metis of_int_less_numeral_power_cancel_iff)
    also have "(2::real) ^ 53 \<le> 2 ^ 1024" by (rule power_increasing) simp_all
    finally show ?thesis by simp
  qed
  have pos: "\<not> (of_int n :: real) < 0" using assms(1) by simp
  show ?thesis
    unfolding round_double_def Let_def s r using small pos by (simp only: if_False)
qed

lemma py_float_decimal:
  assumes "split_sign (strip_with is_c_space s) = (False, body)"
    and "lower body \<noteq> ''inf''" "lower body \<noteq> ''infinity''" "lower body \<noteq> ''nan''"
    and "py_decimal body = Some v"
  shows "py_float s = Some (round_double v)"
  using assms by (simp add: py_float_def)

lemma float_10: "py_float ''10'' = Some (Fin 10)"
proof -
  have "py_float ''10'' = Some (round_double 10)"
  proof (rule py_float_decimal)
    show "split_sign (strip_with is_c_space ''10'') = (False, ''10'')" by code_simp
    show "lower ''10'' \<noteq> ''inf''" "lower ''10'' \<noteq> ''infinity''" "lower ''10'' \<noteq> ''nan''"
      by code_simp+
    show "py_decimal ''10'' = Some 10" by code_simp
  qed
  then show ?thesis using round_double_small_int [of 10] by simp
qed

lemma float_4: "py_float ''4'' = Some (Fin 4)"
proof -
  have "py_float ''4'' = Some (round_double 4)"
  proof (rule py_float_decimal)
    show "split_sign (strip_with is_c_space ''4'') = (False, ''4'')" by code_simp
    show "lower ''4'' \<noteq> ''inf''" "lower ''4'' \<noteq> ''infinity''" "lower ''4'' \<noteq> ''nan''"
      by code_simp+
    show "py_decimal ''4'' = Some 4" by code_simp
  qed
  then show ?thesis using round_double_small_int [of 4] by simp
qed

text \<open>
  A results directory in which the first pair has durations of 10 and 4 seconds and
  the Python file of the second pair holds a duration with two dots.
\<close>

definition partly_malformed_fs :: filesystem where
  "partly_malformed_fs = Map.empty
     (''results/py_1_basic_cpu_stats.txt'' \<mapsto> Text ''Duration: 10 seconds'',
      ''results/cpp_1_basic_cpu_stats.txt'' \<mapsto> Text ''Duration: 4 seconds'',
      ''results/py_2_matrix_ops_stats.txt'' \<mapsto> Text ''Duration: 1.2.3 seconds'')"

lemma first_pair_py:
  "parse_stats_file partly_malformed_fs (stats_path ''results'' ''py_1_basic_cpu'') =
   Inr (initial_stats\<lparr>duration := Some (Fin 10)\<rparr>)"
proof -
  have "re_search match_duration ''Duration: 10 seconds'' = Some ''10''" by code_simp
  moreover have "re_search (match_count ''Total samples:'') ''Duration: 10 seconds'' = None"
    "re_search (match_count ''Context switches:'') ''Duration: 10 seconds'' = None"
    "contains ''Top Functions'' ''Duration: 10 seconds'' = False" by code_simp+
  ultimately have "parse_content ''Duration: 10 seconds'' =
                   Inr (initial_stats\<lparr>duration := Some (Fin 10)\<rparr>)"
    unfolding parse_content_def by (simp add: float_10)
  then show ?thesis by (simp add: parse_stats_file_def partly_malformed_fs_def stats_path_def)
qed

lemma first_pair_cpp:
  "parse_stats_file partly_malformed_fs (stats_path ''results'' ''cpp_1_basic_cpu'') =
   Inr (initial_stats\<lparr>duration := Some (Fin 4)\<rparr>)"
proof -
  have "re_search match_duration ''Duration: 4 seconds'' = Some ''4''" by code_simp
  moreover have "re_search (match_count ''Total samples:'') ''Duration: 4 seconds'' = None"
    "re_search (match_count ''Context switches:'') ''Duration: 4 seconds'' = None"
    "contains ''Top Functions'' ''Duration: 4 seconds'' = False" by code_simp+
  ultimately have "parse_content ''Duration: 4 seconds'' =
                   Inr (initial_stats\<lparr>duration := Some (Fin 4)\<rparr>)"
    unfolding parse_content_def by (simp add: float_4)
  then show ?thesis by (simp add: parse_stats_file_def partly_malformed_fs_def stats_path_def)
qed

lemma second_pair_py:
  "parse_stats_file partly_malformed_fs (stats_path ''results'' ''py_2_matrix_ops'') =
   Inl ValueError"
proof -
  have "parse_content ''Duration: 1.2.3 seconds'' = Inl ValueError"
    unfolding parse_content_def search_malformed by (simp add: float_malformed)
  then show ?thesis by (simp add: parse_stats_file_def partly_malformed_fs_def stats_path_def)
qed

text \<open>
  Claim C2 says that \<open>compare_implementations\<close> includes every example pair in its
  result exactly when both parsed durations are neither null nor zero, with the
  quotient of the durations as speedup. The code does not do that: on this directory the
  durations of the first pair parse to 10 and 4, both nonzero, and the function raises
  while it parses the second pair, so that the first pair is in no result. The exception
  is the unguarded \<open>float\<close> of \<open>parse_stats_file\<close>.
\<close>

theorem compare_implementations_raises:
  "parse_stats_file partly_malformed_fs (stats_path ''results'' ''py_1_basic_cpu'') =
     Inr (initial_stats\<lparr>duration := Some (Fin 10)\<rparr>) \<and>
   parse_stats_file partly_malformed_fs (stats_path ''results'' ''cpp_1_basic_cpu'') =
     Inr (initial_stats\<lparr>duration := Some (Fin 4)\<rparr>) \<and>
   nonzero (Some (Fin 10)) \<and> nonzero (Some (Fin 4)) \<and>
   compare_implementations partly_malformed_fs ''results'' = Inl ValueError"
proof -
  from compare_pair_ok [OF first_pair_py first_pair_cpp, of Map.empty "''Basic CPU Profiling''"]
  obtain c1 where c1: "compare_pair partly_malformed_fs ''results'' Map.empty
      (''py_1_basic_cpu'', ''cpp_1_basic_cpu'', ''Basic CPU Profiling'') = Inr c1" by blast
  have "compare_pair partly_malformed_fs ''results'' c1
      (''py_2_matrix_ops'', ''cpp_2_matrix_ops'', ''Matrix Operations'') = Inl ValueError"
    by (simp add: compare_pair_def second_pair_py)
  with c1 have "compare_implementations partly_malformed_fs ''results'' = Inl ValueError"
    by (simp add: compare_implementations_def example_pairs_def)
  then show ?thesis
    using first_pair_py first_pair_cpp by (simp add: nonzero_def)
qed

section \<open>Extracting statistics: \<open>scripts/generate_visual_report.py\<close>\<close>

text \<open>
  \<^verbatim>\<open>
  def extract_stats(self, profile_path: Path) -> Dict[str, any]:
      stats = {'name': profile_path.stem, 'duration': None, 'cpu_utilization': None,
               'top_functions': [], 'context_switches': 0, 'samples': 0}
      try:
          result = subprocess.run(['nsys', 'stats', str(profile_path)],
                                  capture_output=True, text=True, check=True)
          lines = result.stdout.split('\n')
          for i, line in enumerate(lines):
              if 'Duration:' in line:
                  try:
                      duration_str = line.split('Duration:')[1].strip()
                      stats['duration'] = float(duration_str.split()[0])
                  except:
                      pass
              if 'Top Functions' in line or 'CPU Functions' in line:
                  j = i + 2
                  while j < len(lines) and lines[j].strip():
                      parts = lines[j].split()
                      if len(parts) >= 2 and '%' in parts[0]:
                          try:
                              percentage = float(parts[0].strip('%'))
                              function = ' '.join(parts[1:])
                              stats['top_functions'].append((function, percentage))
                          except:
                              pass
                      j += 1
              if 'Total samples:' in line:
                  try:
                      stats['samples'] = int(line.split(':')[1].strip())
                  except:
                      pass
      except subprocess.CalledProcessError as e:
          print(f"Error extracting stats from {profile_path}: {e}")
      return stats
  \<close>
  A \<open>Path\<close> is kept as the two views the function uses: \<open>str(path)\<close> and
  \<open>path.name\<close>; \<open>stem\<close> is pathlib's rule on the name (cut at the last dot unless it
  is the first or the last character). The fields of this dictionary that share a key
  with \<open>stats\<close> carry the prefix \<open>p_\<close>.

  \<open>subprocess.run\<close> is a parameter: for an argument list it says that the process ran
  and gives its return code and its output, or that the program was not found (\<open>nsys\<close>
  is not installed), which raises \<open>FileNotFoundError\<close>. With \<open>text=True\<close> the output
  is decoded before the return code is looked at, and output that is not text raises
  \<open>UnicodeDecodeError\<close>; with \<open>check=True\<close> a return code other than zero then raises
  \<open>CalledProcessError\<close>, which carries the return code (\<open>run_checked\<close>). The line
  that is printed is kept as the path and the return code it shows. The \<open>while\<close> loop over the rows of a
  table is \<open>table_rows\<close> on the lines from \<open>i + 2\<close> on; the bare \<open>except\<close> clauses
  make every failing step leave the dictionary as it was.
\<close>

record path =
  path_str :: string
  path_name :: string

definition rfind :: "char \<Rightarrow> string \<Rightarrow> int" where
  "rfind c s =
     (if c \<in> set s then int (length s) - 1 - int (length (takeWhile (\<lambda>x. x \<noteq> c) (rev s)))
      else - 1)"

definition stem :: "path \<Rightarrow> string" where
  "stem p =
     (let i = rfind CHR ''.'' (path_name p)
      in if 0 < i \<and> i < int (length (path_name p)) - 1 then take (nat i) (path_name p)
         else path_name p)"

record profile_stats =
  name :: string
  p_duration :: "pyfloat option"
  cpu_utilization :: "pyfloat option"
  p_top_functions :: "(string \<times> pyfloat) list"
  p_context_switches :: int
  samples :: int

datatype captured = Decoded string | Undecodable_output

datatype run_result = Completed int captured | NotFound

datatype message = ExtractError string int

definition run_checked :: "run_result \<Rightarrow> py_error + string" where
  "run_checked r =
     (case r of
        NotFound \<Rightarrow> Inl FileNotFoundError
      | Completed returncode Undecodable_output \<Rightarrow> Inl UnicodeDecodeError
      | Completed returncode (Decoded out) \<Rightarrow>
          if returncode \<noteq> 0 then Inl (CalledProcessError returncode) else Inr out)"

definition duration_line :: "profile_stats \<Rightarrow> string \<Rightarrow> profile_stats" where
  "duration_line st line =
     (if contains ''Duration:'' line
      then (case nth_py (split_sep ''Duration:'' line) 1 of
              Inl e \<Rightarrow> st
            | Inr rest \<Rightarrow>
                (case nth_py (split_ws (strip rest)) 0 of
                   Inl e \<Rightarrow> st
                 | Inr tok \<Rightarrow>
                     (case py_float tok of
                        None \<Rightarrow> st
                      | Some v \<Rightarrow> st\<lparr>p_duration := Some v\<rparr>)))
      else st)"

definition table_row :: "profile_stats \<Rightarrow> string \<Rightarrow> profile_stats" where
  "table_row st line =
     (case split_ws line of
        p0 # p1 # ps \<Rightarrow>
          if contains ''%'' p0
          then (case py_float (strip_chars ''%'' p0) of
                  None \<Rightarrow> st
                | Some percentage \<Rightarrow>
                    st\<lparr>p_top_functions :=
                         p_top_functions st @ [(join '' '' (p1 # ps), percentage)]\<rparr>)
          else st
      | _ \<Rightarrow> st)"

fun table_rows :: "profile_stats \<Rightarrow> string list \<Rightarrow> profile_stats" where
  "table_rows st [] = st"
| "table_rows st (line # rest) =
     (if strip line = [] then st else table_rows (table_row st line) rest)"

definition samples_line :: "profile_stats \<Rightarrow> string \<Rightarrow> profile_stats" where
  "samples_line st line =
     (if contains ''Total samples:'' line
      then (case nth_py (split_sep '':'' line) 1 of
              Inl e \<Rightarrow> st
            | Inr rest \<Rightarrow>
                (case py_int (strip rest) of
                   None \<Rightarrow> st
                 | Some n \<Rightarrow> st\<lparr>samples := n\<rparr>))
      else st)"

definition output_line :: "string list \<Rightarrow> profile_stats \<Rightarrow> nat \<Rightarrow> profile_stats" where
  "output_line lines st i =
     (let line = lines ! i;
          st1 = duration_line st line;
          st2 = (if contains ''Top Functions'' line \<or> contains ''CPU Functions'' line
                 then table_rows st1 (drop (i + 2) lines) else st1)
      in samples_line st2 line)"

definition parse_output :: "string \<Rightarrow> profile_stats \<Rightarrow> profile_stats" where
  "parse_output out st =
     (let lines = split_sep [CHR 0x0A] out
      in foldl (output_line lines) st [0..<length lines])"

definition extract_stats ::
  "(string list \<Rightarrow> run_result) \<Rightarrow> path \<Rightarrow> (py_error + profile_stats) \<times> message list" where
  "extract_stats run profile_path =
     (let stats = \<lparr>name = stem profile_path, p_duration = None, cpu_utilization = None,
                    p_top_functions = [], p_context_switches = 0, samples = 0\<rparr>
      in case run_checked (run [''nsys'', ''stats'', path_str profile_path]) of
           Inr out \<Rightarrow> (Inr (parse_output out stats), [])
         | Inl (CalledProcessError returncode) \<Rightarrow>
             (Inr stats, [ExtractError (path_str profile_path) returncode])
         | Inl e \<Rightarrow> (Inl e, []))"

text \<open>
  A process that runs, writes text and ends with a return code other than zero is
  handled as the claim says: the initial dictionary is returned and one line printed.
\<close>

lemma extract_stats_nonzero_exit:
  assumes "run [''nsys'', ''stats'', path_str p] = Completed returncode (Decoded out)"
    and "returncode \<noteq> 0"
  shows "extract_stats run p =
         (Inr \<lparr>name = stem p, p_duration = None, cpu_utilization = None,
                p_top_functions = [], p_context_switches = 0, samples = 0\<rparr>,
          [ExtractError (path_str p) returncode])"
  using assms by (simp add: extract_stats_def run_checked_def)

text \<open>
  Claim C6 says that when the \<open>nsys stats\<close> subprocess fails, \<open>extract_stats\<close> catches
  the failure, prints an error message and returns the initial dictionary instead of
  propagating an exception. The code does not do that for every failure: it catches
  \<open>CalledProcessError\<close> only. When \<open>nsys\<close> is not installed, and when the output of a
  failing process is not text, the exception leaves \<open>extract_stats\<close>: no dictionary is
  returned and nothing is printed.
\<close>

theorem extract_stats_propagates:
  "extract_stats (\<lambda>argv. NotFound) p = (Inl FileNotFoundError, []) \<and>
   extract_stats (\<lambda>argv. Completed 1 Undecodable_output) p = (Inl UnicodeDecodeError, [])"
  by (simp add: extract_stats_def run_checked_def)

end
